theory Spec2Isabelle
  imports Complex_Main "HOL-Library.Multiset" "HOL-Library.Log_Nat"
begin

section \<open>JavaScript values\<close>

text \<open>
  A JavaScript number is a finite value, one of the two infinities, or NaN. The finite
  values the program computes are IEEE 754 doubles: every arithmetic operation returns
  the exact result rounded to the nearest double, ties to even, with gradual underflow,
  and an infinity when the rounded magnitude reaches \<open>2\<^sup>1\<^sup>0\<^sup>2\<^sup>4\<close>. Zero is unsigned, so a nonzero
  finite value divided by zero takes the sign of the numerator. The special values follow
  IEEE 754: \<open>0/0\<close>, \<open>\<infinity> - \<infinity>\<close>, \<open>0 \<sqdot> \<infinity>\<close> and \<open>\<infinity>/\<infinity>\<close> are NaN, and every comparison with NaN
  is false.
\<close>

datatype jsnum = Fin real | PInf | NInf | NaN

text \<open>A value that may also be \<open>null\<close> or \<open>undefined\<close>.\<close>

datatype jsval = JNum jsnum | JNull | JUndef

text \<open>ToNumber, the coercion every arithmetic operator and relational comparison applies.\<close>

fun ToNumber :: "jsval \<Rightarrow> jsnum" where
  "ToNumber (JNum x) = x"
| "ToNumber JNull = Fin 0"
| "ToNumber JUndef = NaN"

fun isFinite :: "jsnum \<Rightarrow> bool" where
  "isFinite (Fin _) = True"
| "isFinite _ = False"

subsection \<open>Rounding to a double\<close>

text \<open>
  \<open>expo x\<close> is the binary exponent of a nonzero \<open>x\<close>: \<open>2\<^bsup>expo x\<^esup> \<le> |x| < 2\<^bsup>expo x + 1\<^esup>\<close>. It is
  computed from the bit length of an integer: of \<open>\<lfloor>|x|\<rfloor>\<close> when \<open>|x| \<ge> 1\<close>, of \<open>\<lceil>1/|x|\<rceil> - 1\<close>
  otherwise.
\<close>

definition expo :: "real \<Rightarrow> int" where
  "expo x =
     (let a = \<bar>x\<bar>
      in if 1 \<le> a then bitlen \<lfloor>a\<rfloor> - 1 else - bitlen (\<lceil>1 / a\<rceil> - 1))"

text \<open>
  The exponent of the last place of the doubles around \<open>x\<close>: 52 below the exponent of
  \<open>x\<close> for a normal number, \<open>-1074\<close> in the subnormal range.
\<close>

definition ulpexp :: "real \<Rightarrow> int" where
  "ulpexp x = max (expo x) (- 1022) - 52"

text \<open>The integer nearest to \<open>x\<close>, the even one of the two when \<open>x\<close> is half-way.\<close>

definition rne :: "real \<Rightarrow> int" where
  "rne x =
     (let f = \<lfloor>x\<rfloor>; d = x - of_int f
      in if d < 1 / 2 then f else if 1 / 2 < d then f + 1 else if even f then f else f + 1)"

text \<open>
  \<open>rnd x\<close> is \<open>x\<close> rounded to 53 significant bits (fewer in the subnormal range), with no
  bound on the exponent; \<open>round64\<close> adds the overflow to an infinity.
\<close>

definition rnd :: "real \<Rightarrow> real" where
  "rnd x = (if x = 0 then 0 else of_int (rne (x / 2 powi ulpexp x)) * 2 powi ulpexp x)"

definition round64 :: "real \<Rightarrow> jsnum" where
  "round64 x =
     (let r = rnd x in if 2 ^ 1024 \<le> r then PInf else if r \<le> - (2 ^ 1024) then NInf else Fin r)"

subsection \<open>Arithmetic\<close>

fun jneg :: "jsnum \<Rightarrow> jsnum" where
  "jneg (Fin a) = Fin (- a)"
| "jneg PInf = NInf"
| "jneg NInf = PInf"
| "jneg NaN = NaN"

fun jadd :: "jsnum \<Rightarrow> jsnum \<Rightarrow> jsnum" where
  "jadd NaN _ = NaN"
| "jadd _ NaN = NaN"
| "jadd (Fin a) (Fin b) = round64 (a + b)"
| "jadd PInf NInf = NaN"
| "jadd NInf PInf = NaN"
| "jadd PInf _ = PInf"
| "jadd NInf _ = NInf"
| "jadd (Fin _) PInf = PInf"
| "jadd (Fin _) NInf = NInf"

definition jsub :: "jsnum \<Rightarrow> jsnum \<Rightarrow> jsnum" where
  "jsub a b = jadd a (jneg b)"

text \<open>The sign of a number as \<open>-1\<close>, \<open>0\<close>, \<open>1\<close>; used for products and quotients with an infinity.\<close>

fun inf_of_sign :: "real \<Rightarrow> jsnum" where
  "inf_of_sign s = (if s > 0 then PInf else if s < 0 then NInf else NaN)"

fun jmul :: "jsnum \<Rightarrow> jsnum \<Rightarrow> jsnum" where
  "jmul NaN _ = NaN"
| "jmul _ NaN = NaN"
| "jmul (Fin a) (Fin b) = round64 (a * b)"
| "jmul PInf PInf = PInf"
| "jmul PInf NInf = NInf"
| "jmul NInf PInf = NInf"
| "jmul NInf NInf = PInf"
| "jmul PInf (Fin b) = inf_of_sign b"
| "jmul NInf (Fin b) = inf_of_sign (- b)"
| "jmul (Fin a) PInf = inf_of_sign a"
| "jmul (Fin a) NInf = inf_of_sign (- a)"

fun jdiv :: "jsnum \<Rightarrow> jsnum \<Rightarrow> jsnum" where
  "jdiv NaN _ = NaN"
| "jdiv _ NaN = NaN"
| "jdiv (Fin a) (Fin b) = (if b = 0 then inf_of_sign a else round64 (a / b))"
| "jdiv (Fin _) PInf = Fin 0"
| "jdiv (Fin _) NInf = Fin 0"
| "jdiv PInf (Fin b) = (if b < 0 then NInf else PInf)"
| "jdiv NInf (Fin b) = (if b < 0 then PInf else NInf)"
| "jdiv _ _ = NaN"

fun jlt :: "jsnum \<Rightarrow> jsnum \<Rightarrow> bool" where
  "jlt NaN _ = False"
| "jlt _ NaN = False"
| "jlt (Fin a) (Fin b) = (a < b)"
| "jlt _ NInf = False"
| "jlt PInf _ = False"
| "jlt NInf _ = True"
| "jlt (Fin _) PInf = True"

text \<open>Strict equality \<open>===\<close> of two numbers: NaN equals nothing.\<close>

definition jeq :: "jsnum \<Rightarrow> jsnum \<Rightarrow> bool" where
  "jeq a b = (a \<noteq> NaN \<and> a = b)"

definition jgt :: "jsnum \<Rightarrow> jsnum \<Rightarrow> bool" where
  "jgt a b = jlt b a"

definition jle :: "jsnum \<Rightarrow> jsnum \<Rightarrow> bool" where
  "jle a b = (jlt a b \<or> jeq a b)"

definition jge :: "jsnum \<Rightarrow> jsnum \<Rightarrow> bool" where
  "jge a b = jle b a"

fun jabs :: "jsnum \<Rightarrow> jsnum" where
  "jabs (Fin a) = Fin \<bar>a\<bar>"
| "jabs NaN = NaN"
| "jabs _ = PInf"

text \<open>\<open>Math.sqrt\<close>, as the correctly rounded square root.\<close>

fun jsqrt :: "jsnum \<Rightarrow> jsnum" where
  "jsqrt (Fin a) = (if a < 0 then NaN else round64 (sqrt a))"
| "jsqrt PInf = PInf"
| "jsqrt _ = NaN"

text \<open>\<open>Math.sign\<close>.\<close>

fun Math_sign :: "jsnum \<Rightarrow> jsnum" where
  "Math_sign (Fin a) = Fin (sgn a)"
| "Math_sign PInf = Fin 1"
| "Math_sign NInf = Fin (- 1)"
| "Math_sign NaN = NaN"

text \<open>\<open>Math.max\<close> and \<open>Math.min\<close> of two numbers, and of a spread array
  (\<open>-Infinity\<close> and \<open>Infinity\<close> for the empty one).\<close>

definition jmax :: "jsnum \<Rightarrow> jsnum \<Rightarrow> jsnum" where
  "jmax a b = (if a = NaN \<or> b = NaN then NaN else if jlt a b then b else a)"

definition jmin :: "jsnum \<Rightarrow> jsnum \<Rightarrow> jsnum" where
  "jmin a b = (if a = NaN \<or> b = NaN then NaN else if jlt b a then b else a)"

definition Math_max :: "jsnum list \<Rightarrow> jsnum" where
  "Math_max xs = foldl jmax NInf xs"

definition Math_min :: "jsnum list \<Rightarrow> jsnum" where
  "Math_min xs = foldl jmin PInf xs"

text \<open>Truthiness (\<open>if (x)\<close>, \<open>x && y\<close>): \<open>0\<close>, NaN, \<open>null\<close> and \<open>undefined\<close> are falsy.\<close>

fun truthy :: "jsval \<Rightarrow> bool" where
  "truthy (JNum (Fin a)) = (a \<noteq> 0)"
| "truthy (JNum NaN) = False"
| "truthy (JNum _) = True"
| "truthy _ = False"

text \<open>\<open>x != null\<close> (loose): false for \<open>null\<close> and for \<open>undefined\<close>.\<close>

fun notNullish :: "jsval \<Rightarrow> bool" where
  "notNullish (JNum _) = True"
| "notNullish _ = False"

text \<open>\<open>x ?? null\<close>.\<close>

fun orNull :: "jsval \<Rightarrow> jsval" where
  "orNull JUndef = JNull"
| "orNull v = v"

text \<open>The relational operators on values, after ToNumber.\<close>

definition vlt :: "jsval \<Rightarrow> jsval \<Rightarrow> bool" where
  "vlt a b = jlt (ToNumber a) (ToNumber b)"

definition vgt :: "jsval \<Rightarrow> jsval \<Rightarrow> bool" where
  "vgt a b = jgt (ToNumber a) (ToNumber b)"

definition vle :: "jsval \<Rightarrow> jsval \<Rightarrow> bool" where
  "vle a b = jle (ToNumber a) (ToNumber b)"

definition vge :: "jsval \<Rightarrow> jsval \<Rightarrow> bool" where
  "vge a b = jge (ToNumber a) (ToNumber b)"

text \<open>
  \<open>x.toFixed(d)\<close> read back by unary plus. For a finite \<open>x\<close> below \<open>10\<^sup>2\<^sup>1\<close> in magnitude,
  \<open>toFixed\<close> takes the integer \<open>n\<close> with \<open>n / 10\<^sup>d\<close> nearest to \<open>|x|\<close>, the larger one on a
  tie, and restores the sign; above that, and for NaN and the infinities, it prints the
  number itself.
\<close>

definition toFixed_real :: "nat \<Rightarrow> real \<Rightarrow> real" where
  "toFixed_real d x =
     (if \<bar>x\<bar> \<ge> 10 ^ 21 then x
      else sgn x * (of_int \<lfloor>\<bar>x\<bar> * 10 ^ d + 1 / 2\<rfloor> / 10 ^ d))"

fun plus_toFixed :: "nat \<Rightarrow> jsnum \<Rightarrow> jsnum" where
  "plus_toFixed d (Fin x) = Fin (toFixed_real d x)"
| "plus_toFixed d v = v"

subsection \<open>Arrays\<close>

text \<open>
  Arrays of numbers are lists. \<open>arr[i]\<close> and \<open>arr.at(i)\<close> are \<open>undefined\<close> out of range,
  \<open>at\<close> counts a negative index from the end, and \<open>slice\<close> clamps both ends.
\<close>

definition elem :: "jsnum list \<Rightarrow> int \<Rightarrow> jsval" where
  "elem xs i = (if 0 \<le> i \<and> i < int (length xs) then JNum (xs ! nat i) else JUndef)"

definition at_index :: "'a list \<Rightarrow> int \<Rightarrow> 'a option" where
  "at_index xs i =
     (let k = (if i \<ge> 0 then i else int (length xs) + i)
      in if k < 0 \<or> k \<ge> int (length xs) then None else Some (xs ! nat k))"

definition at_num :: "jsnum list \<Rightarrow> int \<Rightarrow> jsval" where
  "at_num xs i = (case at_index xs i of None \<Rightarrow> JUndef | Some x \<Rightarrow> JNum x)"

definition at_val :: "jsval list \<Rightarrow> int \<Rightarrow> jsval" where
  "at_val xs i = (case at_index xs i of None \<Rightarrow> JUndef | Some v \<Rightarrow> v)"

definition rel_index :: "nat \<Rightarrow> int \<Rightarrow> nat" where
  "rel_index len i = (if i < 0 then nat (max (int len + i) 0) else min (nat i) len)"

definition slice :: "'a list \<Rightarrow> int \<Rightarrow> int \<Rightarrow> 'a list" where
  "slice xs a b =
     (let k = rel_index (length xs) a; e = rel_index (length xs) b
      in take (e - k) (drop k xs))"

definition slice_from :: "'a list \<Rightarrow> int \<Rightarrow> 'a list" where
  "slice_from xs a = drop (rel_index (length xs) a) xs"

section \<open>Indicator library\<close>

text \<open>
  Periods are natural numbers, as at every call site (14, 12, 26, 9, 20, 3, 50, 200);
  they are far below \<open>2\<^sup>5\<^sup>3\<close>, so \<open>p + 1\<close> and \<open>p - 1\<close> are exact. The decimal literals
  \<open>0.015\<close>, \<open>0.1\<close> and \<open>0.9\<close> denote the doubles nearest to them, and \<open>x ** 2\<close> is the
  rounded product \<open>x \<sqdot> x\<close>.
  The result of an indicator is a value (\<open>JNull\<close> for \<open>null\<close>) or an optional record
  (\<open>None\<close> for \<open>null\<close>).
\<close>

definition SMA :: "jsnum list \<Rightarrow> nat \<Rightarrow> jsval" where
  "SMA arr p =
     (if length arr < p then JNull
      else JNum (jdiv (foldl jadd (Fin 0) (drop (length arr - p) arr)) (Fin (real p))))"

definition EMA :: "jsnum list \<Rightarrow> nat \<Rightarrow> jsval" where
  "EMA arr p =
     (if length arr < p then JNull
      else let k = jdiv (Fin 2) (Fin (real p + 1));
               emaPrev = SMA (slice arr 0 (int p)) p
           in foldl (\<lambda>emaPrev x. JNum (jadd (jmul x k) (jmul (ToNumber emaPrev) (jsub (Fin 1) k))))
                emaPrev (drop p arr))"

definition stddev :: "jsnum list \<Rightarrow> nat \<Rightarrow> jsval" where
  "stddev arr p =
     (if length arr < p then JNull
      else let sl = slice_from arr (- int p);
               mean = jdiv (foldl jadd (Fin 0) sl) (Fin (real p));
               variance = jdiv (foldl (\<lambda>a b. jadd a (jmul (jsub b mean) (jsub b mean))) (Fin 0) sl)
                            (Fin (real p))
           in JNum (jsqrt variance))"

text \<open>
  RSI. The first loop seeds the gain and loss sums from the differences \<open>1..p\<close>, the
  second applies Wilder's smoothing to the remaining ones; \<open>RSI_avgs\<close> is the pair
  \<open>(avgGain, avgLoss)\<close> after both.
\<close>

definition diff_at :: "jsnum list \<Rightarrow> nat \<Rightarrow> jsnum" where
  "diff_at closes i = jsub (ToNumber (elem closes (int i))) (ToNumber (elem closes (int i - 1)))"

definition RSI_seed :: "jsnum list \<Rightarrow> nat \<Rightarrow> jsnum \<times> jsnum" where
  "RSI_seed closes p =
     foldl (\<lambda>(gains, losses) i.
              let diff = diff_at closes i
              in if jge diff (Fin 0) then (jadd gains diff, losses) else (gains, jsub losses diff))
       (Fin 0, Fin 0) [1..<Suc p]"

definition RSI_smooth :: "nat \<Rightarrow> jsnum \<times> jsnum \<Rightarrow> jsnum \<Rightarrow> jsnum \<times> jsnum" where
  "RSI_smooth p = (\<lambda>(avgGain, avgLoss) diff.
     let gain = (if jgt diff (Fin 0) then diff else Fin 0);
         loss = (if jlt diff (Fin 0) then jneg diff else Fin 0)
     in (jdiv (jadd (jmul avgGain (Fin (real p - 1))) gain) (Fin (real p)),
         jdiv (jadd (jmul avgLoss (Fin (real p - 1))) loss) (Fin (real p))))"

definition RSI_avgs :: "jsnum list \<Rightarrow> nat \<Rightarrow> jsnum \<times> jsnum" where
  "RSI_avgs closes p =
     (let (gains, losses) = RSI_seed closes p
      in foldl (\<lambda>avgs i. RSI_smooth p avgs (diff_at closes i))
           (jdiv gains (Fin (real p)), jdiv losses (Fin (real p)))
           [p + 1..<length closes])"

definition RSI :: "jsnum list \<Rightarrow> nat \<Rightarrow> jsval" where
  "RSI closes p =
     (if length closes < p + 1 then JNull
      else let (avgGain, avgLoss) = RSI_avgs closes p
           in if jeq avgLoss (Fin 0) then JNum (Fin 100)
              else let rs = jdiv avgGain avgLoss
                   in JNum (jsub (Fin 100) (jdiv (Fin 100) (jadd (Fin 1) rs))))"

record macd_res =
  m_macd :: jsval
  m_signal :: jsval
  m_hist :: jsnum
  m_prevHist :: jsval

text \<open>
  MACD. The loop state is \<open>(emaF, emaS, series)\<close>; the two seeds are SMA results, so they
  are values (\<open>null\<close> when the slice is shorter than the period) and enter the
  recurrence through ToNumber.
\<close>

definition ema_step :: "jsnum \<Rightarrow> jsval \<Rightarrow> jsval \<Rightarrow> jsval" where
  "ema_step k x e = JNum (jadd (jmul (ToNumber x) k) (jmul (ToNumber e) (jsub (Fin 1) k)))"

definition MACD_loop :: "jsnum list \<Rightarrow> nat \<Rightarrow> nat \<Rightarrow> jsval \<times> jsval \<times> jsnum list" where
  "MACD_loop closes fast slow =
     (let kF = jdiv (Fin 2) (Fin (real fast + 1));
          kS = jdiv (Fin 2) (Fin (real slow + 1))
      in foldl (\<lambda>(emaF, emaS, series) i.
                  let emaF' = (if i \<ge> fast then ema_step kF (elem closes (int i)) emaF else emaF);
                      emaS' = (if i \<ge> slow then ema_step kS (elem closes (int i)) emaS else emaS)
                  in (emaF', emaS', series @ [jsub (ToNumber emaF') (ToNumber emaS')]))
           (SMA (slice closes 0 (int fast)) fast, SMA (slice closes 0 (int slow)) slow, [])
           [max fast slow..<length closes])"

definition MACD :: "jsnum list \<Rightarrow> nat \<Rightarrow> nat \<Rightarrow> nat \<Rightarrow> macd_res option" where
  "MACD closes fast slow signal =
     (if length closes < slow + signal then None
      else let (emaF, emaS, series) = MACD_loop closes fast slow;
               macdVal = at_num series (- 1);
               signalVal = EMA series signal;
               hist = jsub (ToNumber macdVal) (ToNumber signalVal);
               prevSeries = slice series 0 (- 1);
               prevSignal = (if length prevSeries \<noteq> 0 then EMA prevSeries signal else JNull);
               prevMacd = (if length prevSeries \<noteq> 0 then at_num prevSeries (- 1) else JNull);
               prevHist = (if notNullish prevMacd \<and> notNullish prevSignal
                           then JNum (jsub (ToNumber prevMacd) (ToNumber prevSignal)) else JNull)
           in Some \<lparr>m_macd = macdVal, m_signal = signalVal, m_hist = hist, m_prevHist = prevHist\<rparr>)"

record bb_res =
  bb_mid :: jsval
  bb_upper :: jsnum
  bb_lower :: jsnum

definition Bollinger :: "jsnum list \<Rightarrow> nat \<Rightarrow> real \<Rightarrow> bb_res option" where
  "Bollinger closes p mul =
     (if length closes < p then None
      else let mid = SMA closes p;
               sd = stddev closes p
           in Some \<lparr>bb_mid = mid,
                    bb_upper = jadd (ToNumber mid) (jmul (Fin mul) (ToNumber sd)),
                    bb_lower = jsub (ToNumber mid) (jmul (Fin mul) (ToNumber sd))\<rparr>)"

record stoch_res =
  st_K :: jsval
  st_D :: jsval
  st_prevK :: jsval
  st_prevD :: jsval

text \<open>
  Stochastic. The loops start at \<open>kP - 1\<close>, \<open>p - 1\<close> and \<open>dP - 1\<close>, which is \<open>-1\<close> for a
  zero period, so the indices are integers. The smoothed arrays hold SMA results.
\<close>

definition Stoch_kArr :: "jsnum list \<Rightarrow> jsnum list \<Rightarrow> jsnum list \<Rightarrow> nat \<Rightarrow> jsnum list" where
  "Stoch_kArr highs lows closes kP =
     map (\<lambda>i. let hh = Math_max (slice highs (i - int kP + 1) (i + 1));
                   ll = Math_min (slice lows (i - int kP + 1) (i + 1))
               in jmul (jdiv (jsub (ToNumber (elem closes i)) ll) (jsub hh ll)) (Fin 100))
       [int kP - 1..int (length closes) - 1]"

definition smooth :: "jsnum list \<Rightarrow> nat \<Rightarrow> jsval list" where
  "smooth arr p = map (\<lambda>i. SMA (slice arr 0 (i + 1)) p) [int p - 1..int (length arr) - 1]"

definition Stoch ::
  "jsnum list \<Rightarrow> jsnum list \<Rightarrow> jsnum list \<Rightarrow> nat \<Rightarrow> nat \<Rightarrow> nat \<Rightarrow> stoch_res option" where
  "Stoch highs lows closes kP dP smoothK =
     (if length closes < kP + dP then None
      else let kArr = Stoch_kArr highs lows closes kP;
               kSm = smooth kArr smoothK;
               dArr = smooth (map ToNumber kSm) dP
           in Some \<lparr>st_K = at_val kSm (- 1), st_D = at_val dArr (- 1),
                    st_prevK = orNull (at_val kSm (- 2)), st_prevD = orNull (at_val dArr (- 2))\<rparr>)"

text \<open>CCI. \<open>CCI_tp\<close> is the typical-price array, \<open>CCI_meanDev\<close> the mean absolute deviation.\<close>

definition CCI_tp :: "jsnum list \<Rightarrow> jsnum list \<Rightarrow> jsnum list \<Rightarrow> jsnum list" where
  "CCI_tp highs lows closes =
     map (\<lambda>i. jdiv (jadd (jadd (ToNumber (elem highs (int i))) (ToNumber (elem lows (int i))))
                       (ToNumber (elem closes (int i)))) (Fin 3))
       [0..<length closes]"

definition CCI_meanDev :: "jsnum list \<Rightarrow> jsnum list \<Rightarrow> jsnum list \<Rightarrow> nat \<Rightarrow> jsnum" where
  "CCI_meanDev highs lows closes p =
     (let tp = CCI_tp highs lows closes;
          sma = SMA tp p;
          sl = slice_from tp (- int p)
      in jdiv (foldl (\<lambda>a v. jadd a (jabs (jsub v (ToNumber sma)))) (Fin 0) sl) (Fin (real p)))"

definition CCI :: "jsnum list \<Rightarrow> jsnum list \<Rightarrow> jsnum list \<Rightarrow> nat \<Rightarrow> jsval" where
  "CCI highs lows closes p =
     (if length closes < p then JNull
      else let tp = CCI_tp highs lows closes;
               lastTP = at_num tp (- 1);
               sma = SMA tp p;
               meanDev = CCI_meanDev highs lows closes p
           in JNum (jdiv (jsub (ToNumber lastTP) (ToNumber sma)) (jmul (Fin (rnd (15 / 1000))) meanDev)))"

record adx_res =
  adx_adx :: jsnum
  adx_plusDI :: jsval
  adx_minusDI :: jsval

text \<open>ADX. The first loop runs over \<open>highs\<close> and fills three arrays, one element each per bar.\<close>

definition ADX_plusDM :: "jsnum list \<Rightarrow> jsnum list \<Rightarrow> jsnum list" where
  "ADX_plusDM highs lows =
     map (\<lambda>i. let upMove = jsub (ToNumber (elem highs (int i))) (ToNumber (elem highs (int i - 1)));
                   downMove = jsub (ToNumber (elem lows (int i - 1))) (ToNumber (elem lows (int i)))
               in if jgt upMove downMove \<and> jgt upMove (Fin 0) then upMove else Fin 0)
       [1..<length highs]"

definition ADX_minusDM :: "jsnum list \<Rightarrow> jsnum list \<Rightarrow> jsnum list" where
  "ADX_minusDM highs lows =
     map (\<lambda>i. let upMove = jsub (ToNumber (elem highs (int i))) (ToNumber (elem highs (int i - 1)));
                   downMove = jsub (ToNumber (elem lows (int i - 1))) (ToNumber (elem lows (int i)))
               in if jgt downMove upMove \<and> jgt downMove (Fin 0) then downMove else Fin 0)
       [1..<length highs]"

definition ADX_tr :: "jsnum list \<Rightarrow> jsnum list \<Rightarrow> jsnum list \<Rightarrow> jsnum list" where
  "ADX_tr highs lows closes =
     map (\<lambda>i. Math_max
                 [jsub (ToNumber (elem highs (int i))) (ToNumber (elem lows (int i))),
                  jabs (jsub (ToNumber (elem highs (int i))) (ToNumber (elem closes (int i - 1)))),
                  jabs (jsub (ToNumber (elem lows (int i))) (ToNumber (elem closes (int i - 1))))])
       [1..<length highs]"

fun wSmooth_loop :: "nat \<Rightarrow> jsnum \<Rightarrow> jsnum list \<Rightarrow> jsnum list" where
  "wSmooth_loop p prev [] = []"
| "wSmooth_loop p prev (x # xs) =
     (let prev' = jadd (jsub prev (jdiv prev (Fin (real p)))) x
      in prev' # wSmooth_loop p prev' xs)"

definition wSmooth :: "jsnum list \<Rightarrow> nat \<Rightarrow> jsnum list" where
  "wSmooth arr p =
     (let prev = foldl jadd (Fin 0) (slice arr 0 (int p))
      in prev # wSmooth_loop p prev (drop p arr))"

definition ADX_DI :: "jsnum list \<Rightarrow> jsnum list \<Rightarrow> jsnum list" where
  "ADX_DI dm14 tr14 =
     map (\<lambda>i. jmul (Fin 100) (jdiv (dm14 ! i) (ToNumber (elem tr14 (int i))))) [0..<length dm14]"

definition ADX_dx :: "jsnum list \<Rightarrow> jsnum list \<Rightarrow> jsnum list" where
  "ADX_dx plusDI minusDI =
     map (\<lambda>i. let v = plusDI ! i; m = ToNumber (elem minusDI (int i))
               in jdiv (jmul (Fin 100) (jabs (jsub v m))) (jadd v m))
       [0..<length plusDI]"

definition ADX :: "jsnum list \<Rightarrow> jsnum list \<Rightarrow> jsnum list \<Rightarrow> nat \<Rightarrow> adx_res option" where
  "ADX highs lows closes p =
     (if length closes < p + 1 then None
      else let tr14 = wSmooth (ADX_tr highs lows closes) p;
               plusDM14 = wSmooth (ADX_plusDM highs lows) p;
               minusDM14 = wSmooth (ADX_minusDM highs lows) p;
               plusDI = ADX_DI plusDM14 tr14;
               minusDI = ADX_DI minusDM14 tr14;
               dx = ADX_dx plusDI minusDI;
               adx0 = jdiv (foldl jadd (Fin 0) (slice dx 0 (int p))) (Fin (real p));
               adx = foldl (\<lambda>adx d. jdiv (jadd (jmul adx (Fin (real p - 1))) d) (Fin (real p)))
                       adx0 (drop p dx)
           in Some \<lparr>adx_adx = adx, adx_plusDI = at_num plusDI (- 1),
                    adx_minusDI = at_num minusDI (- 1)\<rparr>)"

section \<open>Signal engine\<close>

record indicators =
  rsi :: jsval
  macd :: "macd_res option"
  bb :: "bb_res option"
  adx :: "adx_res option"
  stoch :: "stoch_res option"
  cci :: jsval
  ema50 :: jsval
  ema200 :: jsval
  close :: jsval

text \<open>
  The running state of \<open>decideSignal\<close> is \<open>(score, notes)\<close>. The score starts at \<open>0\<close> and
  only ever receives \<open>\<plusminus>1\<close> and \<open>\<plusminus>0.5\<close>, so it is a finite number throughout and is a
  real here. Each of the seven blocks of the function is one state transformer.
\<close>

type_synonym tally = "real \<times> string list"

definition trendCheck :: "indicators \<Rightarrow> tally \<Rightarrow> tally" where
  "trendCheck inp = (\<lambda>(score, notes).
     if truthy (ema50 inp) \<and> truthy (ema200 inp) then
       (if vgt (ema50 inp) (ema200 inp) then (score + 1, notes @ [''Trend UP (EMA50>EMA200)''])
        else (score - 1, notes @ [''Trend DOWN (EMA50<EMA200)'']))
     else (score, notes))"

definition rsiCheck :: "indicators \<Rightarrow> tally \<Rightarrow> tally" where
  "rsiCheck inp = (\<lambda>(score, notes).
     if notNullish (rsi inp) then
       (if vlt (rsi inp) (JNum (Fin 30)) then (score + 1, notes @ [''RSI < 30 (oversold)''])
        else if vgt (rsi inp) (JNum (Fin 70)) then (score - 1, notes @ [''RSI > 70 (overbought)''])
        else (score, notes))
     else (score, notes))"

definition macdCheck :: "indicators \<Rightarrow> tally \<Rightarrow> tally" where
  "macdCheck inp = (\<lambda>(score, notes).
     case macd inp of
       None \<Rightarrow> (score, notes)
     | Some m \<Rightarrow>
         if vgt (m_macd m) (m_signal m) \<and>
            (\<not> notNullish (m_prevHist m) \<or> jgt (m_hist m) (ToNumber (m_prevHist m)))
         then (score + 1, notes @ [''MACD bullish & rising hist''])
         else if vlt (m_macd m) (m_signal m) \<and>
            (\<not> notNullish (m_prevHist m) \<or> jlt (m_hist m) (ToNumber (m_prevHist m)))
         then (score - 1, notes @ [''MACD bearish & falling hist''])
         else (score, notes))"

definition bbCheck :: "indicators \<Rightarrow> tally \<Rightarrow> tally" where
  "bbCheck inp = (\<lambda>(score, notes).
     case bb inp of
       None \<Rightarrow> (score, notes)
     | Some b \<Rightarrow>
         let pos = jdiv (jsub (ToNumber (close inp)) (bb_lower b)) (jsub (bb_upper b) (bb_lower b))
         in if jle pos (Fin (rnd (1 / 10))) then (score + 1 / 2, notes @ [''Near lower Bollinger''])
            else if jge pos (Fin (rnd (9 / 10))) then (score - 1 / 2, notes @ [''Near upper Bollinger''])
            else (score, notes))"

definition adxCheck :: "indicators \<Rightarrow> tally \<Rightarrow> tally" where
  "adxCheck inp = (\<lambda>(score, notes).
     case adx inp of
       None \<Rightarrow> (score, notes)
     | Some a \<Rightarrow>
         if jgt (adx_adx a) (Fin 25) then
           (if vgt (adx_plusDI a) (adx_minusDI a) then (score + 1 / 2, notes @ [''ADX>25, +DI dominates''])
            else (score - 1 / 2, notes @ [''ADX>25, -DI dominates'']))
         else (score, notes))"

definition stochCheck :: "indicators \<Rightarrow> tally \<Rightarrow> tally" where
  "stochCheck inp = (\<lambda>(score, notes).
     case stoch inp of
       None \<Rightarrow> (score, notes)
     | Some s \<Rightarrow>
         if notNullish (st_prevK s) \<and> notNullish (st_prevD s) then
           (if vlt (st_prevK s) (st_prevD s) \<and> vgt (st_K s) (st_D s) \<and> vlt (st_K s) (JNum (Fin 20))
            then (score + 1 / 2, notes @ [''Stoch bullish cross <20''])
            else if vgt (st_prevK s) (st_prevD s) \<and> vlt (st_K s) (st_D s) \<and> vgt (st_K s) (JNum (Fin 80))
            then (score - 1 / 2, notes @ [''Stoch bearish cross >80''])
            else (score, notes))
         else (score, notes))"

definition cciCheck :: "indicators \<Rightarrow> tally \<Rightarrow> tally" where
  "cciCheck inp = (\<lambda>(score, notes).
     if notNullish (cci inp) then
       (if vlt (cci inp) (JNum (Fin (- 100))) then (score + 1 / 2, notes @ [''CCI < -100''])
        else if vgt (cci inp) (JNum (Fin 100)) then (score - 1 / 2, notes @ [''CCI > 100''])
        else (score, notes))
     else (score, notes))"

text \<open>The seven blocks in the order the source runs them, and the tally they leave.\<close>

definition signalChecks :: "(indicators \<Rightarrow> tally \<Rightarrow> tally) list" where
  "signalChecks = [trendCheck, rsiCheck, macdCheck, bbCheck, adxCheck, stochCheck, cciCheck]"

definition runChecks :: "(indicators \<Rightarrow> tally \<Rightarrow> tally) list \<Rightarrow> indicators \<Rightarrow> tally" where
  "runChecks cs inp = foldl (\<lambda>st c. c inp st) (0, []) cs"

record signal =
  score :: real
  verdict :: string
  sig_notes :: "string list"

definition decideSignal :: "indicators \<Rightarrow> signal" where
  "decideSignal inp =
     (let (score, notes) = runChecks signalChecks inp;
          verdict = (if score \<ge> 3 / 2 then ''LEAN LONG''
                     else if score \<le> - (3 / 2) then ''LEAN SHORT''
                     else ''NEUTRAL / WAIT'')
      in \<lparr>score = toFixed_real 2 score, verdict = verdict, sig_notes = notes\<rparr>)"

section \<open>Multi-timeframe aggregator\<close>

record timeframe =
  label :: string
  interval :: nat
  weight :: nat

definition TIMEFRAMES :: "timeframe list" where
  "TIMEFRAMES =
     [\<lparr>label = ''15m'', interval = 900, weight = 1\<rparr>,
      \<lparr>label = ''1h'', interval = 3600, weight = 2\<rparr>,
      \<lparr>label = ''1d'', interval = 86400, weight = 3\<rparr>]"

text \<open>A fetched row, each field already passed through \<open>toNum\<close> (a number, possibly NaN).\<close>

record candle =
  c_high :: jsnum
  c_low :: jsnum
  c_close :: jsnum

record tf_result =
  tf_label :: string
  tf_close :: jsval
  tf_score :: real
  tf_verdict :: string
  tf_notes :: "string list"
  tf_weight :: nat

text \<open>
  \<open>analyzeOneTF\<close> after the fetch has delivered its rows; the weight is the field that
  \<open>analyzeAsset\<close> adds when it pushes the result.
\<close>

definition indicatorsOf :: "candle list \<Rightarrow> indicators" where
  "indicatorsOf rows =
     (let closes = map c_close rows;
          highs = map c_high rows;
          lows = map c_low rows
      in \<lparr>rsi = RSI closes 14,
          macd = MACD closes 12 26 9,
          bb = Bollinger closes 20 2,
          adx = ADX highs lows closes 14,
          stoch = Stoch highs lows closes 14 3 3,
          cci = CCI highs lows closes 20,
          ema50 = EMA closes 50,
          ema200 = EMA closes 200,
          close = at_num closes (- 1)\<rparr>)"

definition analyzeOneTF :: "candle list \<Rightarrow> timeframe \<Rightarrow> tf_result" where
  "analyzeOneTF rows tf =
     (let inp = indicatorsOf rows;
          sig = decideSignal inp
      in \<lparr>tf_label = label tf, tf_close = close inp, tf_score = score sig,
          tf_verdict = verdict sig, tf_notes = sig_notes sig, tf_weight = weight tf\<rparr>)"

text \<open>
  The candle source is a parameter: \<open>fetch pair interval\<close> is \<open>None\<close> when the request
  fails (the error leaves \<open>analyzeAsset\<close> and is caught by \<open>runAllAssets\<close>). The loop
  over the timeframes stops at the first failure.
\<close>

fun analyzeAll :: "(nat \<Rightarrow> nat \<Rightarrow> candle list option) \<Rightarrow> nat \<Rightarrow> timeframe list \<Rightarrow> tf_result list option" where
  "analyzeAll fetch assetId [] = Some []"
| "analyzeAll fetch assetId (tf # tfs) =
     (case fetch assetId (interval tf) of
        None \<Rightarrow> None
      | Some rows \<Rightarrow>
          (case analyzeAll fetch assetId tfs of
             None \<Rightarrow> None
           | Some rs \<Rightarrow> Some (analyzeOneTF rows tf # rs)))"

definition totalW :: nat where
  "totalW = foldl (\<lambda>a b. a + weight b) 0 TIMEFRAMES"

definition weightedScoreOf :: "tf_result list \<Rightarrow> jsnum" where
  "weightedScoreOf perTF =
     jdiv (Fin (foldl (\<lambda>a r. a + tf_score r * real (tf_weight r)) 0 perTF)) (Fin (real totalW))"

definition globalVerdictOf :: "jsnum \<Rightarrow> string" where
  "globalVerdictOf weightedScore =
     (if jge weightedScore (Fin 1) then ''GLOBAL: LEAN LONG''
      else if jle weightedScore (Fin (- 1)) then ''GLOBAL: LEAN SHORT''
      else ''NEUTRAL / WAIT'')"

section \<open>Live price cache\<close>

record tick =
  price :: jsnum
  ts :: jsnum
  pair :: string

text \<open>
  \<open>livePrices\<close> is keyed by the finite identifier. A parsed message is a list of
  \<open>(pairKey, payload)\<close> entries. The model starts after the handler's conversions, and
  keeps the one way each of them can fail: \<open>Number\<close> and \<open>parseFloat\<close> raise a
  \<open>TypeError\<close> on an object whose \<open>valueOf\<close> and \<open>toString\<close> are both not callable, and
  \<open>item.tradingPair?.toUpperCase?.()\<close> raises one when \<open>tradingPair\<close> has a \<open>toUpperCase\<close>
  member that is not a function.
  \<^item> \<open>p_id\<close> is \<open>Number(payload.id)\<close> when the payload has its own \<open>id\<close>;
  \<^item> \<open>instruments0\<close> is \<open>payload?.instruments?.[0]\<close> when that is truthy;
  \<^item> \<open>currentPrice\<close> is \<open>parseFloat(item.currentPrice)\<close>;
  \<^item> \<open>timestamp\<close> is \<open>Number(item.timestamp)\<close> when the field is neither \<open>null\<close> nor
    \<open>undefined\<close>;
  \<^item> \<open>tradingPair\<close> is \<open>PairUpper s\<close> when the field is a string, \<open>s\<close> being what its
    \<open>toUpperCase()\<close> returns, \<open>PairThrows\<close> when the call raises, and \<open>PairMissing\<close> when
    the optional chain gives \<open>undefined\<close> (no field, or a value without that member).
\<close>

type_synonym cache = "real \<rightharpoonup> tick"

datatype error = TypeError

datatype conv = Converted jsnum | ConvThrows

datatype pairField = PairMissing | PairUpper string | PairThrows

record item =
  currentPrice :: conv
  timestamp :: "conv option"
  tradingPair :: pairField

record payload =
  p_id :: "conv option"
  instruments0 :: "item option"

text \<open>
  \<open>Unparsable\<close> is a message on which \<open>JSON.parse\<close> or \<open>Object.entries\<close> throws.
\<close>

datatype message = Unparsable | Parsed "(string \<times> payload) list"

text \<open>
  One call of the \<open>forEach\<close> callback, in the source's evaluation order: \<open>id\<close>, \<open>price\<close>,
  \<open>ts\<close>, the finiteness test, then the object literal with its \<open>pair\<close>, then the
  assignment. A throw leaves \<open>livePrices\<close> as it was before the call.
\<close>

definition handleEntry :: "nat \<Rightarrow> cache \<Rightarrow> string \<times> payload \<Rightarrow> error + cache" where
  "handleEntry now livePrices = (\<lambda>(pairKey, payload).
     case instruments0 payload of
       None \<Rightarrow> Inr livePrices
     | Some it \<Rightarrow>
         (case p_id payload of
            Some ConvThrows \<Rightarrow> Inl TypeError
          | idc \<Rightarrow>
              (case currentPrice it of
                 ConvThrows \<Rightarrow> Inl TypeError
               | Converted p \<Rightarrow>
                   (case timestamp it of
                      Some ConvThrows \<Rightarrow> Inl TypeError
                    | tsc \<Rightarrow>
                        let t = (case tsc of Some (Converted n) \<Rightarrow> n | _ \<Rightarrow> Fin (real now))
                        in (case idc of
                              Some (Converted (Fin idn)) \<Rightarrow>
                                if isFinite p then
                                  (case tradingPair it of
                                     PairThrows \<Rightarrow> Inl TypeError
                                   | PairUpper s \<Rightarrow>
                                       Inr (livePrices(idn \<mapsto> \<lparr>price = p, ts = t, pair = s\<rparr>))
                                   | PairMissing \<Rightarrow>
                                       Inr (livePrices(idn \<mapsto> \<lparr>price = p, ts = t, pair = pairKey\<rparr>)))
                                else Inr livePrices
                            | _ \<Rightarrow> Inr livePrices)))))"

text \<open>
  The \<open>forEach\<close> over the entries: a throw in one call leaves the loop, is caught by the
  handler's \<open>catch\<close> and logged, so the entries after it are never looked at while the
  assignments made before it stay.
\<close>

fun forEachEntry :: "nat \<Rightarrow> cache \<Rightarrow> (string \<times> payload) list \<Rightarrow> cache" where
  "forEachEntry now livePrices [] = livePrices"
| "forEachEntry now livePrices (e # es) =
     (case handleEntry now livePrices e of
        Inl _ \<Rightarrow> livePrices
      | Inr livePrices' \<Rightarrow> forEachEntry now livePrices' es)"

definition onMessage :: "nat \<Rightarrow> message \<Rightarrow> cache \<Rightarrow> cache" where
  "onMessage now msg livePrices =
     (case msg of Unparsable \<Rightarrow> livePrices | Parsed entries \<Rightarrow> forEachEntry now livePrices entries)"

section \<open>Analysis records and the deferred check\<close>

record analysis =
  a_t :: nat
  a_epoch :: nat
  a_assetId :: nat
  a_pair :: "string option"
  spotAtAnalysis :: jsval
  weightedScore :: jsnum
  a_verdict :: string
  a_perTF :: "(string \<times> jsval \<times> real) list"

record outcome =
  tCheck :: nat
  o_assetId :: nat
  o_pair :: "string option"
  spotAtT :: jsval
  spotAtTplus1h :: jsval
  delta :: jsval
  predictedSign :: jsnum
  wasCorrect :: "bool option"

text \<open>\<open>live?.price ?? null\<close> and \<open>live?.pair ?? null\<close>.\<close>

definition spotOf :: "cache \<Rightarrow> nat \<Rightarrow> jsval" where
  "spotOf livePrices assetId =
     (case livePrices (real assetId) of None \<Rightarrow> JNull | Some live \<Rightarrow> JNum (price live))"

definition pairOf :: "cache \<Rightarrow> nat \<Rightarrow> string option" where
  "pairOf livePrices assetId =
     (case livePrices (real assetId) of None \<Rightarrow> None | Some live \<Rightarrow> Some (pair live))"

text \<open>
  \<open>analyzeAsset\<close> up to the record it appends: \<open>None\<close> when a fetch failed. \<open>now\<close> is the
  clock in milliseconds.
\<close>

definition analyzeAsset ::
  "(nat \<Rightarrow> nat \<Rightarrow> candle list option) \<Rightarrow> nat \<Rightarrow> nat \<Rightarrow> cache \<Rightarrow> analysis option" where
  "analyzeAsset fetch assetId now livePrices =
     (case analyzeAll fetch assetId TIMEFRAMES of
        None \<Rightarrow> None
      | Some perTF \<Rightarrow>
          let weightedScore = weightedScoreOf perTF;
              globalVerdict = globalVerdictOf weightedScore;
              spot = spotOf livePrices assetId;
              pairName = pairOf livePrices assetId
          in Some \<lparr>a_t = now, a_epoch = now div 1000, a_assetId = assetId, a_pair = pairName,
                   spotAtAnalysis = spot, weightedScore = plus_toFixed 3 weightedScore,
                   a_verdict = globalVerdict,
                   a_perTF = map (\<lambda>r. (tf_label r, tf_close r, tf_score r)) perTF\<rparr>)"

text \<open>
  The callback given to \<open>setTimeout\<close>. It closes over \<open>record\<close>, \<open>assetId\<close>, \<open>spot\<close> and
  \<open>pairName\<close>; the last three are the fields of the record they were stored in.
\<close>

definition checkOutcome :: "analysis \<Rightarrow> cache \<Rightarrow> nat \<Rightarrow> outcome" where
  "checkOutcome record livePrices now2 =
     (let spot = spotAtAnalysis record;
          spotLater = spotOf livePrices (a_assetId record);
          predSign = Math_sign (weightedScore record);
          movedUp = (if notNullish spot \<and> notNullish spotLater then Some (vgt spotLater spot) else None);
          correct = (case movedUp of
                       None \<Rightarrow> None
                     | Some m \<Rightarrow>
                         if jgt predSign (Fin 0) then Some (m = True)
                         else if jlt predSign (Fin 0) then Some (m = False)
                         else None)
      in \<lparr>tCheck = now2, o_assetId = a_assetId record, o_pair = a_pair record,
          spotAtT = spot, spotAtTplus1h = spotLater,
          delta = (if notNullish spot \<and> notNullish spotLater
                   then JNum (plus_toFixed 6 (jsub (ToNumber spotLater) (ToNumber spot))) else JNull),
          predictedSign = predSign, wasCorrect = correct\<rparr>)"

section \<open>The running process\<close>

text \<open>
  The process is single-threaded: each callback runs to completion. Its state is the
  cache, the lines handed to \<open>appendJsonLine\<close> in call order (an analysis line goes to
  \<open>analyses.jsonl\<close>, an outcome line to \<open>outcomes.jsonl\<close>), and the pending timers with the
  record each one closes over. Every run of \<open>analyzeAsset\<close> gets a serial number, which
  tags its line, its timer and the outcome line the timer writes; the number is
  bookkeeping of the model, not a field of the record. \<open>analyzeAsset\<close> awaits its fetches
  and only then, in one synchronous stretch, reads the cache, appends the analysis
  line and sets the timer; the event \<open>RunAnalyze\<close> is that stretch, with the fetched rows
  as its input.
\<close>

datatype line = AnalysisLine nat analysis | OutcomeLine nat outcome

record sys =
  livePrices :: cache
  journal :: "line list"
  timers :: "(nat \<times> analysis) list"
  nextId :: nat

datatype event =
    WssMessage nat message
  | RunAnalyze nat nat "nat \<Rightarrow> nat \<Rightarrow> candle list option"
  | TimerFires nat nat

definition init :: sys where
  "init = \<lparr>livePrices = Map.empty, journal = [], timers = [], nextId = 0\<rparr>"

fun step :: "sys \<Rightarrow> event \<Rightarrow> sys" where
  "step s (WssMessage now msg) = s\<lparr>livePrices := onMessage now msg (livePrices s)\<rparr>"
| "step s (RunAnalyze now assetId fetch) =
     (case analyzeAsset fetch assetId now (livePrices s) of
        None \<Rightarrow> s
      | Some record \<Rightarrow>
          s\<lparr>journal := journal s @ [AnalysisLine (nextId s) record],
            timers := timers s @ [(nextId s, record)],
            nextId := Suc (nextId s)\<rparr>)"
| "step s (TimerFires now2 k) =
     (case map_of (timers s) k of
        None \<Rightarrow> s
      | Some record \<Rightarrow>
          s\<lparr>journal := journal s @ [OutcomeLine k (checkOutcome record (livePrices s) now2)],
            timers := filter (\<lambda>(k', _). k' \<noteq> k) (timers s)\<rparr>)"

definition run :: "event list \<Rightarrow> sys" where
  "run evs = foldl step init evs"

text \<open>The serial numbers of the analysis lines and of the outcome lines of a journal, in order.\<close>

fun analysisIds :: "line list \<Rightarrow> nat list" where
  "analysisIds [] = []"
| "analysisIds (AnalysisLine k _ # ls) = k # analysisIds ls"
| "analysisIds (OutcomeLine _ _ # ls) = analysisIds ls"

fun outcomeIds :: "line list \<Rightarrow> nat list" where
  "outcomeIds [] = []"
| "outcomeIds (OutcomeLine k _ # ls) = k # outcomeIds ls"
| "outcomeIds (AnalysisLine _ _ # ls) = outcomeIds ls"

section \<open>Auxiliary notions for the proofs\<close>

text \<open>What one block of \<open>decideSignal\<close> adds to the score: its effect on the empty tally.\<close>

definition contribution :: "(indicators \<Rightarrow> tally \<Rightarrow> tally) \<Rightarrow> indicators \<Rightarrow> real" where
  "contribution c inp = fst (c inp (0, []))"

text \<open>
  The entries of the parsed messages of a run, each with the clock of its message, and
  the tick that the handler stores under an identifier for an entry (none when the
  handler skips the entry, stores it under another identifier, or throws).
\<close>

definition entryTick :: "real \<Rightarrow> nat \<Rightarrow> string \<times> payload \<Rightarrow> tick option" where
  "entryTick idn now = (\<lambda>(pairKey, payload).
     case instruments0 payload of
       None \<Rightarrow> None
     | Some it \<Rightarrow>
         (case (p_id payload, currentPrice it) of
            (Some (Converted (Fin i)), Converted (Fin pr)) \<Rightarrow>
              if i = idn \<and> timestamp it \<noteq> Some ConvThrows \<and> tradingPair it \<noteq> PairThrows
              then Some \<lparr>price = Fin pr,
                         ts = (case timestamp it of Some (Converted n) \<Rightarrow> n | _ \<Rightarrow> Fin (real now)),
                         pair = (case tradingPair it of PairUpper s \<Rightarrow> s | _ \<Rightarrow> pairKey)\<rparr>
              else None
          | _ \<Rightarrow> None))"

fun ticksOf :: "event list \<Rightarrow> (nat \<times> string \<times> payload) list" where
  "ticksOf [] = []"
| "ticksOf (WssMessage now (Parsed entries) # evs) = map (Pair now) entries @ ticksOf evs"
| "ticksOf (_ # evs) = ticksOf evs"

text \<open>
  What every analysis line of a run satisfies, and the invariant of the running process
  that the ordering properties rest on.
\<close>

definition wf_analysis :: "analysis \<Rightarrow> bool" where
  "wf_analysis a = (isFinite (weightedScore a) \<and> spotAtAnalysis a \<noteq> JUndef)"

definition inv :: "sys \<Rightarrow> bool" where
  "inv s =
     (distinct (map fst (timers s)) \<and>
      (\<forall>(k, r) \<in> set (timers s). AnalysisLine k r \<in> set (journal s) \<and> k \<notin> set (outcomeIds (journal s))) \<and>
      (\<forall>k \<in> set (analysisIds (journal s)). k < nextId s) \<and>
      distinct (analysisIds (journal s)) \<and>
      distinct (outcomeIds (journal s)) \<and>
      (\<forall>n. set (outcomeIds (take n (journal s))) \<subseteq> set (analysisIds (take n (journal s)))) \<and>
      (\<forall>k a. AnalysisLine k a \<in> set (journal s) \<longrightarrow> wf_analysis a) \<and>
      (\<forall>k out. OutcomeLine k out \<in> set (journal s) \<longrightarrow>
         (\<exists>a lp now2. AnalysisLine k a \<in> set (journal s) \<and> out = checkOutcome a lp now2)))"

text \<open>Example data: fifteen falling bars with \<open>high = low = close = 20, 19, \<dots>, 6\<close>.\<close>

definition fallingRows :: "candle list" where
  "fallingRows = map (\<lambda>c. \<lparr>c_high = Fin c, c_low = Fin c, c_close = Fin c\<rparr>)
      [20, 19, 18, 17, 16, 15, 14, 13, 12, 11, 10, 9, 8, 7, 6]"

text \<open>
  Example run: a tick at \<open>10\<close>, an analysis of the falling bars, a tick at \<open>12\<close>, then the
  timer of the analysis.
\<close>

definition fallingRun :: "event list" where
  "fallingRun =
     [WssMessage 1000 (Parsed [(''K'', \<lparr>p_id = Some (Converted (Fin 5000)), instruments0 =
          Some \<lparr>currentPrice = Converted (Fin 10), timestamp = None, tradingPair = PairMissing\<rparr>\<rparr>)]),
      RunAnalyze 2000 5000 (\<lambda>_ _. Some fallingRows),
      WssMessage 3000 (Parsed [(''K'', \<lparr>p_id = Some (Converted (Fin 5000)), instruments0 =
          Some \<lparr>currentPrice = Converted (Fin 12), timestamp = None, tradingPair = PairMissing\<rparr>\<rparr>)]),
      TimerFires 3602000 0]"

section \<open>Properties of the rounding\<close>

subsection \<open>The binary exponent\<close>

lemma expo_abs: "expo \<bar>x\<bar> = expo x"
  by (simp add: expo_def)

lemma expo_minus: "expo (- x) = expo x"
  by (simp add: expo_def)

lemma expo_small:
  assumes "0 < x" and "x < 1"
  obtains k where "expo x = - int k" and "0 < k" and "1 / x \<le> 2 ^ k" and "(2::real) ^ (k - 1) < 1 / x"
proof -
  define c where "c = \<lceil>1 / x\<rceil>"
  define m where "m = nat (c - 1)"
  have big: "1 < 1 / x" using assms by simp
  have c1: "1 / x \<le> of_int c" and c2: "of_int c - 1 < 1 / x"
    unfolding c_def by linarith+
  have c: "2 \<le> c" using big c1 by linarith
  then have m: "0 < m" and rm: "real m = of_int c - 1"
    by (simp_all add: m_def)
  have e: "expo x = - int (floorlog 2 m)"
    using assms by (simp add: expo_def bitlen_def m_def c_def)
  have fl: "0 < floorlog 2 m"
    using m by (simp add: floorlog_def)
  have "m < 2 ^ floorlog 2 m"
    using floorlog_bounds [of m 2] m by simp
  then have "Suc m \<le> 2 ^ floorlog 2 m" by (rule Suc_leI)
  then have h: "real (Suc m) \<le> 2 ^ floorlog 2 m"
    by (metis of_nat_le_iff of_nat_numeral of_nat_power)
  have sm: "real (Suc m) = of_int c"
    using rm by simp
  have "of_int c \<le> (2::real) ^ floorlog 2 m"
    using h unfolding sm .
  then have up: "1 / x \<le> 2 ^ floorlog 2 m"
    using c1 by linarith
  have "2 ^ (floorlog 2 m - 1) \<le> m"
    using floorlog_bounds [of m 2] m by simp
  then have "(2::real) ^ (floorlog 2 m - 1) \<le> real m"
    by (metis of_nat_le_iff of_nat_numeral of_nat_power)
  then have lo: "(2::real) ^ (floorlog 2 m - 1) < 1 / x"
    using rm c2 by linarith
  show thesis
    using that [OF e fl up lo] .
qed

lemma expo_large:
  assumes "1 \<le> x"
  obtains k where "expo x = int k - 1" and "0 < k" and "(2::real) ^ (k - 1) \<le> x" and "x < 2 ^ k"
proof -
  define n where "n = nat \<lfloor>x\<rfloor>"
  have n: "0 < n" and rn: "real n = of_int \<lfloor>x\<rfloor>"
    using assms by (simp_all add: n_def)
  have e: "expo x = int (floorlog 2 n) - 1"
    using assms by (simp add: expo_def bitlen_def n_def)
  have fl: "0 < floorlog 2 n"
    using n by (simp add: floorlog_def)
  have "2 ^ (floorlog 2 n - 1) \<le> n"
    using floorlog_bounds [of n 2] n by simp
  then have "(2::real) ^ (floorlog 2 n - 1) \<le> real n"
    by (metis of_nat_le_iff of_nat_numeral of_nat_power)
  then have lo: "(2::real) ^ (floorlog 2 n - 1) \<le> x"
    using rn by linarith
  have "n < 2 ^ floorlog 2 n"
    using floorlog_bounds [of n 2] n by simp
  then have "Suc n \<le> 2 ^ floorlog 2 n" by (rule Suc_leI)
  then have "real (Suc n) \<le> 2 ^ floorlog 2 n"
    by (metis of_nat_le_iff of_nat_numeral of_nat_power)
  then have up: "x < 2 ^ floorlog 2 n"
    using rn by simp linarith
  show thesis
    using that [OF e fl lo up] .
qed

lemma expo_bounds_pos:
  assumes "0 < x"
  shows "2 powi expo x \<le> x" and "x < 2 powi (expo x + 1)"
proof -
  have "2 powi expo x \<le> x \<and> x < 2 powi (expo x + 1)"
  proof (cases "1 \<le> x")
    case True
    obtain k where k: "expo x = int k - 1" "0 < k" "(2::real) ^ (k - 1) \<le> x" "x < 2 ^ k"
      using expo_large [OF True] by blast
    have e1: "expo x = int (k - 1)" and e2: "expo x + 1 = int k"
      using k(1,2) by simp_all
    have "2 powi expo x = (2::real) ^ (k - 1)"
      by (simp only: e1 power_int_of_nat)
    moreover have "2 powi (expo x + 1) = (2::real) ^ k"
      by (simp only: e2 power_int_of_nat)
    ultimately show ?thesis
      using k(3,4) by (simp only: simp_thms)
  next
    case False
    then have "x < 1" by simp
    then obtain k where k: "expo x = - int k" "0 < k" "1 / x \<le> 2 ^ k" "(2::real) ^ (k - 1) < 1 / x"
      using expo_small [OF assms] by blast
    have a: "1 / 2 ^ k \<le> x"
      using k(3) assms by (simp add: field_simps)
    have b: "x < 1 / 2 ^ (k - 1)"
      using k(4) assms by (simp add: field_simps)
    have e2: "expo x + 1 = - int (k - 1)"
      using k(1,2) by simp
    have "2 powi expo x = 1 / (2::real) ^ k"
      by (simp add: k(1) power_int_minus_divide)
    moreover have "2 powi (expo x + 1) = 1 / (2::real) ^ (k - 1)"
      by (simp only: e2 power_int_minus_divide power_int_of_nat)
    ultimately show ?thesis
      using a b by simp
  qed
  then show "2 powi expo x \<le> x" and "x < 2 powi (expo x + 1)"
    by simp_all
qed

lemma expo_bounds:
  assumes "x \<noteq> 0"
  shows "2 powi expo x \<le> \<bar>x\<bar>" and "\<bar>x\<bar> < 2 powi (expo x + 1)"
  using expo_bounds_pos [of "\<bar>x\<bar>"] assms by (simp_all add: expo_abs)

lemma expo_unique:
  assumes "2 powi e \<le> \<bar>x\<bar>" and "\<bar>x\<bar> < 2 powi (e + 1)"
  shows "expo x = e"
proof -
  have p: "0 < (2::real) powi e" by simp
  have nz: "x \<noteq> 0"
  proof
    assume "x = 0"
    then have "(2::real) powi e \<le> 0" using assms(1) by simp
    then show False using p by linarith
  qed
  note b = expo_bounds [OF nz]
  have "\<not> expo x < e"
  proof
    assume "expo x < e"
    then have "expo x + 1 \<le> e" by simp
    then have "(2::real) powi (expo x + 1) \<le> 2 powi e"
      by (intro power_int_increasing) simp_all
    then show False using b(2) assms(1) by linarith
  qed
  moreover have "\<not> e < expo x"
  proof
    assume "e < expo x"
    then have "e + 1 \<le> expo x" by simp
    then have "(2::real) powi (e + 1) \<le> 2 powi expo x"
      by (intro power_int_increasing) simp_all
    then show False using b(1) assms(2) by linarith
  qed
  ultimately show ?thesis by simp
qed

lemma expo_mono:
  assumes "0 < x" and "x \<le> y"
  shows "expo x \<le> expo y"
proof (rule ccontr)
  assume "\<not> expo x \<le> expo y"
  then have "expo y + 1 \<le> expo x" by simp
  then have "(2::real) powi (expo y + 1) \<le> 2 powi expo x"
    by (intro power_int_increasing) simp_all
  moreover have "y < 2 powi (expo y + 1)" "2 powi expo x \<le> x"
    using expo_bounds_pos assms by simp_all
  ultimately show False using assms(2) by linarith
qed


subsection \<open>Rounding to an integer\<close>

lemma rne_of_int [simp]: "rne (of_int n) = n"
  by (simp add: rne_def)

lemma rne_bounds: "x - 1 / 2 \<le> of_int (rne x)" "of_int (rne x) \<le> x + 1 / 2"
proof -
  define f where "f = \<lfloor>x\<rfloor>"
  have f: "of_int f \<le> x" "x < of_int f + 1"
    unfolding f_def by linarith+
  have r: "rne x = (if x - of_int f < 1 / 2 then f
      else if 1 / 2 < x - of_int f then f + 1 else if even f then f else f + 1)"
    by (simp add: rne_def Let_def f_def)
  show "x - 1 / 2 \<le> of_int (rne x)" "of_int (rne x) \<le> x + 1 / 2"
    using f unfolding r by (auto split: if_splits)
qed

lemma rne_floor: "\<lfloor>x\<rfloor> \<le> rne x" "rne x \<le> \<lfloor>x\<rfloor> + 1"
  by (auto simp: rne_def Let_def)

lemma rne_mono:
  assumes "x \<le> y"
  shows "rne x \<le> rne y"
proof (cases "\<lfloor>x\<rfloor> = \<lfloor>y\<rfloor>")
  case True
  have "x - of_int \<lfloor>x\<rfloor> \<le> y - of_int \<lfloor>y\<rfloor>"
    using assms True by simp
  then show ?thesis
    using True by (auto simp: rne_def Let_def)
next
  case False
  have "\<lfloor>x\<rfloor> \<le> \<lfloor>y\<rfloor>" using assms by (rule floor_mono)
  then have "\<lfloor>x\<rfloor> + 1 \<le> \<lfloor>y\<rfloor>" using False by simp
  then show ?thesis
    using rne_floor(2) [of x] rne_floor(1) [of y] by linarith
qed

lemma rne_le_int: "x \<le> of_int n \<Longrightarrow> rne x \<le> n"
  using rne_mono [of x "of_int n"] by simp

lemma rne_ge_int: "of_int n \<le> x \<Longrightarrow> n \<le> rne x"
  using rne_mono [of "of_int n" x] by simp

lemma rne_minus: "rne (- x) = - rne x"
proof (cases "x = of_int \<lfloor>x\<rfloor>")
  case True
  then obtain n where "x = of_int n" ..
  then have "- x = of_int (- n)" by simp
  then show ?thesis
    using \<open>x = of_int n\<close> by (simp only: rne_of_int)
next
  case False
  define f where "f = \<lfloor>x\<rfloor>"
  have f: "of_int f < x" "x < of_int f + 1"
    using False unfolding f_def by linarith+
  have fm: "\<lfloor>- x\<rfloor> = - f - 1"
    using f by linarith
  have "rne (- x) = (if (- x) - of_int (- f - 1) < 1 / 2 then - f - 1
      else if 1 / 2 < (- x) - of_int (- f - 1) then - f else if even (- f - 1) then - f - 1 else - f)"
    by (simp add: rne_def Let_def fm)
  moreover have "rne x = (if x - of_int f < 1 / 2 then f
      else if 1 / 2 < x - of_int f then f + 1 else if even f then f else f + 1)"
    by (simp add: rne_def Let_def f_def)
  ultimately show ?thesis
    by (auto split: if_splits)
qed

lemma rne_double: "0 \<le> t \<Longrightarrow> of_int (rne t) \<le> 2 * t"
proof -
  assume t: "0 \<le> t"
  show ?thesis
  proof (cases "t < 1 / 2")
    case True
    then have "\<lfloor>t\<rfloor> = 0" using t by linarith
    then have "rne t = 0" using True by (simp add: rne_def Let_def)
    then show ?thesis using t by simp
  next
    case False
    then show ?thesis using rne_bounds(2) [of t] by linarith
  qed
qed

lemma rne_half: "0 \<le> t \<Longrightarrow> rne t \<noteq> 0 \<Longrightarrow> t / 2 \<le> of_int (rne t)"
proof -
  assume t: "0 \<le> t" and nz: "rne t \<noteq> 0"
  have "0 \<le> rne t" using t rne_ge_int [of 0 t] by simp
  then have one: "1 \<le> rne t" using nz by simp
  then have r1: "(1::real) \<le> of_int (rne t)" by linarith
  show ?thesis
  proof (cases "t \<le> 2")
    case True
    then show ?thesis using r1 by linarith
  next
    case False
    then show ?thesis using rne_bounds(1) [of t] by linarith
  qed
qed

subsection \<open>Monotonicity and error of the rounding\<close>

lemma ulpexp_minus: "ulpexp (- x) = ulpexp x"
  by (simp add: ulpexp_def expo_minus)

lemma rnd_zero [simp]: "rnd 0 = 0"
  by (simp add: rnd_def)

lemma rnd_minus: "rnd (- x) = - rnd x"
  by (simp add: rnd_def ulpexp_minus rne_minus)

lemma rnd_nonneg: "0 \<le> x \<Longrightarrow> 0 \<le> rnd x"
proof -
  assume x: "0 \<le> x"
  have "0 \<le> x / 2 powi ulpexp x" using x by simp
  then have "0 \<le> rne (x / 2 powi ulpexp x)"
    using rne_ge_int [of 0] by simp
  then show ?thesis by (simp add: rnd_def)
qed

lemma rnd_nonpos: "x \<le> 0 \<Longrightarrow> rnd x \<le> 0"
  using rnd_nonneg [of "- x"] by (simp add: rnd_minus)

lemma ulpexp_mono:
  assumes "0 < x" and "x \<le> y"
  shows "ulpexp x \<le> ulpexp y"
  using expo_mono [OF assms] by (simp add: ulpexp_def)

lemma rnd_mono_pos:
  assumes "0 < x" and "x \<le> y"
  shows "rnd x \<le> rnd y"
proof (cases "ulpexp x = ulpexp y")
  case True
  have "x / 2 powi ulpexp y \<le> y / 2 powi ulpexp y"
    using assms by (simp add: divide_right_mono)
  then have "rne (x / 2 powi ulpexp y) \<le> rne (y / 2 powi ulpexp y)"
    by (rule rne_mono)
  then have "of_int (rne (x / 2 powi ulpexp y)) * 2 powi ulpexp y
      \<le> of_int (rne (y / 2 powi ulpexp y)) * (2::real) powi ulpexp y"
    by (simp add: mult_right_mono)
  then show ?thesis
    using assms by (simp add: rnd_def True)
next
  case False
  have y: "0 < y" using assms by linarith
  have lt: "ulpexp x < ulpexp y"
    using ulpexp_mono [OF assms] False by simp
  then have ey: "- 1022 < expo y" and exy: "expo x < expo y"
    by (auto simp: ulpexp_def max_def split: if_splits)
  have uy: "ulpexp y = expo y - 52"
    using ey by (simp add: ulpexp_def)
  define B where "B = (2::real) powi expo y"
  have Bpos: "0 < B" by (simp add: B_def)
  have By: "B \<le> y"
    using expo_bounds_pos(1) [OF y] by (simp add: B_def)
  have "x < 2 powi (expo x + 1)"
    using expo_bounds_pos(2) [OF assms(1)] .
  also have "\<dots> \<le> B"
    unfolding B_def using exy by (intro power_int_increasing) simp_all
  finally have xB: "x \<le> B" by simp
  have qy: "B / 2 powi ulpexp y = of_int (2 ^ 52)"
    by (simp add: B_def uy power_int_diff)
  have "of_int (2 ^ 52) \<le> y / 2 powi ulpexp y"
    using By by (simp only: qy [symmetric]) (simp add: divide_right_mono)
  then have "2 ^ 52 \<le> rne (y / 2 powi ulpexp y)"
    by (rule rne_ge_int)
  then have "of_int (2 ^ 52) * 2 powi ulpexp y \<le> of_int (rne (y / 2 powi ulpexp y)) * (2::real) powi ulpexp y"
    by (intro mult_right_mono) (simp_all only: of_int_le_iff zero_le_power_int zero_le_numeral)
  moreover have "of_int (2 ^ 52) * 2 powi ulpexp y = B"
    using qy by (simp add: field_simps)
  moreover have "rnd y = of_int (rne (y / 2 powi ulpexp y)) * 2 powi ulpexp y"
    using y by (simp add: rnd_def)
  ultimately have low: "B \<le> rnd y"
    by (simp only:)
  define k where "k = nat (expo y - ulpexp x)"
  have kk: "expo y - ulpexp x = int k"
    using lt uy by (simp add: k_def)
  have qx: "B / 2 powi ulpexp x = of_int (2 ^ k)"
    by (simp add: B_def power_int_diff [symmetric] kk)
  have "x / 2 powi ulpexp x \<le> of_int (2 ^ k)"
    using xB by (simp only: qx [symmetric]) (simp add: divide_right_mono)
  then have "rne (x / 2 powi ulpexp x) \<le> 2 ^ k"
    by (rule rne_le_int)
  then have "of_int (rne (x / 2 powi ulpexp x)) * 2 powi ulpexp x \<le> of_int (2 ^ k) * (2::real) powi ulpexp x"
    by (intro mult_right_mono) (simp_all only: of_int_le_iff zero_le_power_int zero_le_numeral)
  moreover have "of_int (2 ^ k) * 2 powi ulpexp x = B"
    using qx by (simp add: field_simps)
  moreover have "rnd x = of_int (rne (x / 2 powi ulpexp x)) * 2 powi ulpexp x"
    using assms(1) by (simp add: rnd_def)
  ultimately have "rnd x \<le> B"
    by (simp only:)
  then show ?thesis using low by linarith
qed

lemma rnd_mono:
  assumes "x \<le> y"
  shows "rnd x \<le> rnd y"
proof -
  consider "0 < x" | "x \<le> 0" "0 \<le> y" | "y < 0" by linarith
  then show ?thesis
  proof cases
    case 1
    then show ?thesis using assms by (rule rnd_mono_pos)
  next
    case 2
    then show ?thesis using rnd_nonpos [of x] rnd_nonneg [of y] by linarith
  next
    case 3
    then have "rnd (- y) \<le> rnd (- x)"
      using assms by (intro rnd_mono_pos) simp_all
    then show ?thesis by (simp add: rnd_minus)
  qed
qed

lemma rnd_error: "\<bar>rnd x - x\<bar> \<le> 2 powi ulpexp x / 2"
proof (cases "x = 0")
  case True
  then show ?thesis by simp
next
  case False
  define q where "q = (2::real) powi ulpexp x"
  define a where "a = of_int (rne (x / q)) - x / q"
  have q: "0 < q" by (simp add: q_def)
  have "\<bar>a\<bar> \<le> 1 / 2"
    unfolding a_def using rne_bounds [of "x / q"] by linarith
  then have "\<bar>a\<bar> * q \<le> 1 / 2 * q"
    using q by (intro mult_right_mono) simp_all
  then have e1: "\<bar>a\<bar> * q \<le> q / 2" by simp
  have e2: "\<bar>a\<bar> * q = \<bar>a * q\<bar>"
    using q by (simp add: abs_mult)
  have e3: "a * q = of_int (rne (x / q)) * q - x"
    using q by (simp add: a_def left_diff_distrib)
  have e4: "rnd x = of_int (rne (x / q)) * q"
    using False by (simp add: rnd_def q_def)
  have "\<bar>rnd x - x\<bar> \<le> q / 2"
    using e1 e2 e3 e4 by linarith
  then show ?thesis
    by (simp only: q_def)
qed


subsection \<open>Doubles\<close>

lemma expo_less:
  assumes "x \<noteq> 0" and "\<bar>x\<bar> < 2 powi n"
  shows "expo x < n"
proof (rule ccontr)
  assume "\<not> expo x < n"
  then have "(2::real) powi n \<le> 2 powi expo x"
    by (intro power_int_increasing) simp_all
  then show False
    using expo_bounds(1) [OF assms(1)] assms(2) by linarith
qed

lemma rnd_exact_strict:
  assumes "\<bar>m\<bar> < 2 ^ 53" and "- 1074 \<le> e"
  shows "rnd (of_int m * 2 powi e) = of_int m * 2 powi e"
proof (cases "m = 0")
  case True
  then show ?thesis by simp
next
  case False
  define x where "x = of_int m * (2::real) powi e"
  have nz: "x \<noteq> 0" using False by (simp add: x_def)
  have "\<bar>x\<bar> = of_int \<bar>m\<bar> * 2 powi e"
    by (simp add: x_def abs_mult)
  also have "\<dots> < of_int (2 ^ 53) * 2 powi e"
    using assms(1) by (intro mult_strict_right_mono) (simp_all only: of_int_less_iff zero_less_power_int zero_less_numeral)
  also have "\<dots> = 2 powi (e + 53)"
    by (simp add: power_int_add)
  finally have "expo x < e + 53"
    using expo_less [OF nz] by simp
  then have u: "ulpexp x \<le> e"
    using assms(2) by (simp add: ulpexp_def)
  define k where "k = nat (e - ulpexp x)"
  have kk: "e = ulpexp x + int k"
    using u by (simp add: k_def)
  have "(2::real) powi (ulpexp x + int k) = 2 powi ulpexp x * 2 powi (int k)"
    by (rule power_int_add) simp
  then have p: "(2::real) powi e = 2 ^ k * 2 powi ulpexp x"
    unfolding kk [symmetric] by (simp only: power_int_of_nat mult.commute)
  define q where "q = (2::real) powi ulpexp x"
  have q: "0 < q" by (simp add: q_def)
  have "x = of_int m * 2 powi e" by (rule x_def)
  then have xq: "x = of_int m * (2 ^ k * q)"
    by (simp only: p q_def)
  then have "x / q = of_int (m * 2 ^ k)"
    using q by simp
  then have "rne (x / q) = m * 2 ^ k"
    by (simp only: rne_of_int)
  moreover have "rnd x = of_int (rne (x / q)) * q"
    using nz by (simp add: rnd_def q_def)
  ultimately have "rnd x = of_int (m * 2 ^ k) * q"
    by (simp only:)
  also have "\<dots> = x"
    using xq by simp
  finally show ?thesis
    by (simp only: x_def)
qed

lemma rnd_exact:
  assumes "\<bar>m\<bar> \<le> 2 ^ 53" and "- 1074 \<le> e"
  shows "rnd (of_int m * 2 powi e) = of_int m * 2 powi e"
proof (cases "\<bar>m\<bar> < 2 ^ 53")
  case True
  then show ?thesis using assms(2) by (rule rnd_exact_strict)
next
  case False
  then have "\<bar>m\<bar> = 2 ^ 53" using assms(1) by simp
  then have "m = 2 * 2 ^ 52 \<or> m = 2 * (- (2 ^ 52))"
    by (simp add: abs_if split: if_splits)
  then obtain h where h: "m = 2 * h" "\<bar>h\<bar> < 2 ^ 53"
    by (elim disjE) (intro that [of "2 ^ 52"], simp, simp, intro that [of "- (2 ^ 52)"], simp, simp)
  have "of_int m * (2::real) powi e = of_int h * 2 powi (e + 1)"
    by (simp add: h(1) power_int_add)
  moreover have "rnd (of_int h * 2 powi (e + 1)) = of_int h * 2 powi (e + 1)"
    using h(2) assms(2) by (intro rnd_exact_strict) simp_all
  ultimately show ?thesis by simp
qed

lemma rnd_int: "\<bar>n\<bar> \<le> 2 ^ 53 \<Longrightarrow> rnd (of_int n) = of_int n"
  using rnd_exact [of n 0] by simp

lemma rnd_nat: "n \<le> 2 ^ 53 \<Longrightarrow> rnd (real n) = real n"
  using rnd_int [of "int n"] by simp

lemma rnd_pow2: "- 1074 \<le> e \<Longrightarrow> rnd (2 powi e) = 2 powi e"
  using rnd_exact [of 1 e] by simp

lemma rnd_nat_pow2: "n \<le> 2 ^ 53 \<Longrightarrow> rnd (real n * 2 ^ j) = real n * 2 ^ j"
  using rnd_exact [of "int n" "int j"] by simp

lemma ulpexp_ge: "- 1074 \<le> ulpexp x"
  using max.cobounded2 [of "- 1022" "expo x"] by (simp add: ulpexp_def)

lemma rnd_grid:
  assumes "t = (2::real) powi (- 1074)"
  shows "\<exists>n. rnd x = of_int n * t"
proof (cases "x = 0")
  case True
  then show ?thesis by (intro exI [of _ 0]) simp
next
  case False
  define k where "k = nat (ulpexp x + 1074)"
  have "ulpexp x = int k + (- 1074)"
    using ulpexp_ge [of x] by (simp add: k_def)
  then have "(2::real) powi ulpexp x = 2 powi (int k) * 2 powi (- 1074)"
    by (simp only: power_int_add [of "2::real", symmetric, simplified])
  then have p: "(2::real) powi ulpexp x = 2 ^ k * t"
    by (simp only: assms power_int_of_nat)
  have "rnd x = of_int (rne (x / 2 powi ulpexp x)) * 2 powi ulpexp x"
    using False by (simp add: rnd_def)
  also have "\<dots> = of_int (rne (x / 2 powi ulpexp x) * 2 ^ k) * t"
    by (simp only: p) simp
  finally show ?thesis by blast
qed

lemma rnd_diff_nonzero:
  assumes "rnd a = a" and "rnd b = b" and "a \<noteq> b"
  shows "rnd (a - b) \<noteq> 0"
proof -
  define t where "t = (2::real) powi (- 1074)"
  have t: "0 < t" by (simp only: t_def zero_less_power_int zero_less_numeral)
  have rt: "rnd t = t"
    unfolding t_def by (rule rnd_pow2) simp
  have pos: "0 < rnd (x - y)" if h: "rnd x = x" "rnd y = y" "y < x" for x y
  proof -
    obtain n where n: "x = of_int n * t"
      using rnd_grid [OF t_def, of x] h(1) by auto
    obtain m where m: "y = of_int m * t"
      using rnd_grid [OF t_def, of y] h(2) by auto
    have "of_int m * t < of_int n * t"
      using h(3) n m by simp
    then have "(of_int m :: real) < of_int n"
      using t by (simp only: mult_less_cancel_right_pos)
    then have "m + 1 \<le> n" by simp
    then have "(1::real) \<le> of_int (n - m)" by simp
    then have "1 * t \<le> of_int (n - m) * t"
      using t by (intro mult_right_mono) simp_all
    moreover have "x - y = of_int (n - m) * t"
      by (simp add: n m left_diff_distrib)
    ultimately have "t \<le> x - y" by simp
    then have "rnd t \<le> rnd (x - y)"
      by (rule rnd_mono)
    then show ?thesis using rt t by linarith
  qed
  show ?thesis
  proof (cases "b < a")
    case True
    then show ?thesis using pos [OF assms(1,2)] by simp
  next
    case False
    then have "a < b" using assms(3) by simp
    then have "0 < rnd (b - a)" using pos [OF assms(2,1)] by simp
    moreover have "rnd (b - a) = - rnd (a - b)"
      using rnd_minus [of "a - b"] by simp
    ultimately show ?thesis by simp
  qed
qed

lemma rnd_le: "x \<le> b \<Longrightarrow> rnd b = b \<Longrightarrow> rnd x \<le> b"
  using rnd_mono [of x b] by simp

lemma rnd_ge: "b \<le> x \<Longrightarrow> rnd b = b \<Longrightarrow> b \<le> rnd x"
  using rnd_mono [of b x] by simp

lemma rnd_abs_le:
  assumes "\<bar>x\<bar> \<le> b" and "rnd b = b"
  shows "\<bar>rnd x\<bar> \<le> b"
proof -
  have "rnd (- b) = - b" using assms(2) by (simp add: rnd_minus)
  then have "- b \<le> rnd x" using assms(1) by (intro rnd_ge) simp_all
  moreover have "rnd x \<le> b" using assms by (intro rnd_le) simp_all
  ultimately show ?thesis by simp
qed

lemma rnd_idem: "rnd (rnd x) = rnd x"
proof (cases "x = 0")
  case True
  then show ?thesis by simp
next
  case False
  define u where "u = ulpexp x"
  define n where "n = rne (x / 2 powi u)"
  have r: "rnd x = of_int n * 2 powi u"
    using False by (simp add: rnd_def n_def u_def)
  have u: "- 1074 \<le> u" by (simp add: u_def ulpexp_ge)
  have "\<bar>x\<bar> < 2 powi (expo x + 1)"
    using expo_bounds(2) [OF False] .
  also have "\<dots> \<le> 2 powi (u + 53)"
    by (intro power_int_increasing) (simp_all add: u_def ulpexp_def)
  finally have "\<bar>x\<bar> / 2 powi u < 2 powi (u + 53) / 2 powi u"
    by (intro divide_strict_right_mono) simp_all
  then have "\<bar>x\<bar> / 2 powi u < of_int (2 ^ 53)"
    by (simp add: power_int_add)
  moreover have "\<bar>x / 2 powi u\<bar> = \<bar>x\<bar> / 2 powi u"
    by simp
  ultimately have h: "x / 2 powi u \<le> of_int (2 ^ 53)" "of_int (- (2 ^ 53)) \<le> x / 2 powi u"
    by linarith+
  have "n \<le> 2 ^ 53"
    unfolding n_def using h(1) by (rule rne_le_int)
  moreover have "- (2 ^ 53) \<le> n"
    unfolding n_def using h(2) by (rule rne_ge_int)
  ultimately have "\<bar>n\<bar> \<le> 2 ^ 53" by simp
  then show ?thesis
    unfolding r using u by (rule rnd_exact)
qed

subsection \<open>The rounded result as a JavaScript number\<close>

lemma round64_Fin: "\<bar>rnd x\<bar> < 2 ^ 1024 \<Longrightarrow> round64 x = Fin (rnd x)"
  by (simp add: round64_def Let_def abs_less_iff)

lemma round64_not_NaN [simp]: "round64 x \<noteq> NaN"
  by (simp add: round64_def Let_def)

lemma round64_zero [simp]: "round64 0 = Fin 0"
  by (simp add: round64_def)

lemma round64_cases:
  obtains "round64 x = Fin (rnd x)" "\<bar>rnd x\<bar> < 2 ^ 1024"
  | "round64 x = PInf" "2 ^ 1024 \<le> rnd x"
  | "round64 x = NInf" "rnd x \<le> - (2 ^ 1024)"
  by (cases "2 ^ 1024 \<le> rnd x"; cases "rnd x \<le> - (2 ^ 1024)") (auto simp: round64_def Let_def)

lemma round64_bound:
  assumes "\<bar>x\<bar> \<le> b" and "rnd b = b" and "b < 2 ^ 1024"
  shows "round64 x = Fin (rnd x)" and "\<bar>rnd x\<bar> \<le> b"
proof -
  show "\<bar>rnd x\<bar> \<le> b" using assms(1,2) by (rule rnd_abs_le)
  then have "\<bar>rnd x\<bar> < 2 ^ 1024" using assms(3) by linarith
  then show "round64 x = Fin (rnd x)" by (rule round64_Fin)
qed


lemma round64_exact: "rnd x = x \<Longrightarrow> \<bar>x\<bar> < 2 ^ 1024 \<Longrightarrow> round64 x = Fin x"
  using round64_Fin [of x] by simp

lemma round64_int: "\<bar>n\<bar> \<le> 2 ^ 53 \<Longrightarrow> round64 (of_int n) = Fin (of_int n)"
proof -
  assume n: "\<bar>n\<bar> \<le> 2 ^ 53"
  then have "\<bar>of_int n :: real\<bar> \<le> of_int (2 ^ 53)"
    by (simp only: of_int_abs [symmetric] of_int_le_iff)
  then have "\<bar>of_int n :: real\<bar> < 2 ^ 1024" by simp
  then show ?thesis
    using rnd_int [OF n] by (intro round64_exact)
qed

lemma round64_numeral [simp]:
  "(numeral k :: int) \<le> 9007199254740992 \<Longrightarrow> round64 (numeral k) = Fin (numeral k)"
  using round64_int [of "numeral k"] by simp

lemma round64_neg_numeral [simp]:
  "(numeral k :: int) \<le> 9007199254740992 \<Longrightarrow> round64 (- numeral k) = Fin (- numeral k)"
  using round64_int [of "- numeral k"] by simp

lemma round64_one [simp]: "round64 1 = Fin 1"
  using round64_int [of 1] by simp

lemma round64_neg_one [simp]: "round64 (- 1) = Fin (- 1)"
  using round64_int [of "- 1"] by simp

section \<open>Properties of the indicator library\<close>

text \<open>
  C3. Each of the nine indicator functions starts with a length guard and returns
  \<open>null\<close> when its input is shorter than the guard asks: \<open>p\<close> for SMA, EMA, the
  standard deviation, Bollinger and CCI, \<open>p + 1\<close> for RSI and ADX, \<open>slow + signal\<close> for
  MACD, \<open>kP + dP\<close> for the Stochastic. For the three-array functions the guard reads
  \<open>closes\<close>. None of the functions has a throwing path on arrays of numbers, so each
  is a total function and the absent result is its value.
\<close>

theorem indicators_absent_below_minimum:
  "(length arr < p \<longrightarrow> SMA arr p = JNull) \<and>
   (length arr < p \<longrightarrow> EMA arr p = JNull) \<and>
   (length arr < p \<longrightarrow> stddev arr p = JNull) \<and>
   (length closes < p + 1 \<longrightarrow> RSI closes p = JNull) \<and>
   (length closes < slow + signal \<longrightarrow> MACD closes fast slow signal = None) \<and>
   (length closes < p \<longrightarrow> Bollinger closes p mul = None) \<and>
   (length closes < kP + dP \<longrightarrow> Stoch highs lows closes kP dP smoothK = None) \<and>
   (length closes < p \<longrightarrow> CCI highs lows closes p = JNull) \<and>
   (length closes < p + 1 \<longrightarrow> ADX highs lows closes p = None)"
  by (simp add: SMA_def EMA_def stddev_def RSI_def MACD_def Bollinger_def Stoch_def CCI_def ADX_def)

theorem indicators_absent_below_minimum_witness:
  "SMA [Fin 1] 2 = JNull \<and> EMA [Fin 1] 2 = JNull \<and> stddev [Fin 1] 2 = JNull \<and>
   RSI [Fin 1, Fin 2] 2 = JNull \<and> MACD [Fin 1, Fin 2] 1 2 1 = None \<and>
   Bollinger [Fin 1, Fin 2] 3 2 = None \<and>
   Stoch [Fin 3, Fin 3] [Fin 1, Fin 1] [Fin 1, Fin 2] 2 1 1 = None \<and>
   CCI [Fin 3, Fin 3] [Fin 1, Fin 1] [Fin 1, Fin 2] 3 = JNull \<and>
   ADX [Fin 3, Fin 3] [Fin 1, Fin 1] [Fin 1, Fin 2] 2 = None"
proof -
  have a: "SMA [Fin 1] 2 = JNull \<and> EMA [Fin 1] 2 = JNull \<and> stddev [Fin 1] 2 = JNull"
    using indicators_absent_below_minimum [where arr = "[Fin 1]" and p = 2] by simp
  have b: "RSI [Fin 1, Fin 2] 2 = JNull \<and> MACD [Fin 1, Fin 2] 1 2 1 = None"
    using indicators_absent_below_minimum
      [where closes = "[Fin 1, Fin 2]" and p = 2 and slow = 2 and signal = 1 and fast = 1]
    by simp
  have c: "Bollinger [Fin 1, Fin 2] 3 2 = None \<and>
     Stoch [Fin 3, Fin 3] [Fin 1, Fin 1] [Fin 1, Fin 2] 2 1 1 = None \<and>
     CCI [Fin 3, Fin 3] [Fin 1, Fin 1] [Fin 1, Fin 2] 3 = JNull"
    using indicators_absent_below_minimum
      [where closes = "[Fin 1, Fin 2]" and p = 3 and kP = 2 and dP = 1
         and highs = "[Fin 3, Fin 3]" and lows = "[Fin 1, Fin 1]" and smoothK = 1 and mul = 2]
    by simp
  have d: "ADX [Fin 3, Fin 3] [Fin 1, Fin 1] [Fin 1, Fin 2] 2 = None"
    using indicators_absent_below_minimum
      [where closes = "[Fin 1, Fin 2]" and p = 2 and highs = "[Fin 3, Fin 3]" and lows = "[Fin 1, Fin 1]"]
    by simp
  from a b c d show ?thesis by simp
qed

section \<open>Properties of the signal engine\<close>

text \<open>
  C10. The Trend block of \<open>decideSignal\<close> is guarded by \<open>ema50 && ema200\<close> and has a plain
  \<open>else\<close>: with both EMAs present, nonzero and equal (more generally, truthy and equal)
  it subtracts \<open>1\<close> and notes the down trend; with either EMA exactly \<open>0\<close> (falsy) it leaves
  score and notes untouched, as it does when either is \<open>null\<close>.
\<close>

lemma jlt_irrefl: "\<not> jlt x x"
  by (cases x) simp_all

theorem trend_tie_and_zero:
  "(ema50 inp = JNum (Fin a) \<and> ema200 inp = JNum (Fin a) \<and> a \<noteq> 0 \<longrightarrow>
      trendCheck inp (s, n) = (s - 1, n @ [''Trend DOWN (EMA50<EMA200)''])) \<and>
   (truthy (ema50 inp) \<and> ema200 inp = ema50 inp \<longrightarrow>
      trendCheck inp (s, n) = (s - 1, n @ [''Trend DOWN (EMA50<EMA200)''])) \<and>
   (ema50 inp = JNum (Fin 0) \<or> ema200 inp = JNum (Fin 0) \<longrightarrow> trendCheck inp (s, n) = (s, n)) \<and>
   (ema50 inp = JNull \<or> ema200 inp = JNull \<longrightarrow> trendCheck inp (s, n) = (s, n))"
  by (auto simp: trendCheck_def vgt_def jgt_def jlt_irrefl)

theorem trend_tie_and_zero_witness:
  "trendCheck \<lparr>rsi = JNull, macd = None, bb = None, adx = None, stoch = None, cci = JNull,
      ema50 = JNum (Fin 5), ema200 = JNum (Fin 5), close = JNum (Fin 5)\<rparr> (0, [])
     = (- 1, [''Trend DOWN (EMA50<EMA200)'']) \<and>
   trendCheck \<lparr>rsi = JNull, macd = None, bb = None, adx = None, stoch = None, cci = JNull,
      ema50 = JNum (Fin 0), ema200 = JNum (Fin 5), close = JNum (Fin 5)\<rparr> (0, []) = (0, []) \<and>
   trendCheck \<lparr>rsi = JNull, macd = None, bb = None, adx = None, stoch = None, cci = JNull,
      ema50 = JNum (Fin 5), ema200 = JNull, close = JNum (Fin 5)\<rparr> (0, []) = (0, [])"
proof -
  have a: "trendCheck \<lparr>rsi = JNull, macd = None, bb = None, adx = None, stoch = None, cci = JNull,
      ema50 = JNum (Fin 5), ema200 = JNum (Fin 5), close = JNum (Fin 5)\<rparr> (0, [])
     = (- 1, [''Trend DOWN (EMA50<EMA200)''])"
    using trend_tie_and_zero [where a = 5 and s = 0 and n = "[]" and inp = "\<lparr>rsi = JNull, macd = None,
      bb = None, adx = None, stoch = None, cci = JNull,
      ema50 = JNum (Fin 5), ema200 = JNum (Fin 5), close = JNum (Fin 5)\<rparr>"]
    by simp
  have b: "trendCheck \<lparr>rsi = JNull, macd = None, bb = None, adx = None, stoch = None, cci = JNull,
      ema50 = JNum (Fin 0), ema200 = JNum (Fin 5), close = JNum (Fin 5)\<rparr> (0, []) = (0, [])"
    using trend_tie_and_zero [where s = 0 and n = "[]" and inp = "\<lparr>rsi = JNull, macd = None,
      bb = None, adx = None, stoch = None, cci = JNull,
      ema50 = JNum (Fin 0), ema200 = JNum (Fin 5), close = JNum (Fin 5)\<rparr>"]
    by simp
  have c: "trendCheck \<lparr>rsi = JNull, macd = None, bb = None, adx = None, stoch = None, cci = JNull,
      ema50 = JNum (Fin 5), ema200 = JNull, close = JNum (Fin 5)\<rparr> (0, []) = (0, [])"
    using trend_tie_and_zero [where s = 0 and n = "[]" and inp = "\<lparr>rsi = JNull, macd = None,
      bb = None, adx = None, stoch = None, cci = JNull,
      ema50 = JNum (Fin 5), ema200 = JNull, close = JNum (Fin 5)\<rparr>"]
    by simp
  from a b c show ?thesis by simp
qed

subsection \<open>Every block adds a fixed amount\<close>

lemma trendCheck_adds: "fst (trendCheck inp (s, n)) = s + contribution trendCheck inp"
  by (simp add: contribution_def trendCheck_def)

lemma rsiCheck_adds: "fst (rsiCheck inp (s, n)) = s + contribution rsiCheck inp"
  by (simp add: contribution_def rsiCheck_def)

lemma macdCheck_adds: "fst (macdCheck inp (s, n)) = s + contribution macdCheck inp"
  by (cases "macd inp") (simp_all add: contribution_def macdCheck_def)

lemma bbCheck_adds: "fst (bbCheck inp (s, n)) = s + contribution bbCheck inp"
  by (cases "bb inp") (simp_all add: contribution_def bbCheck_def Let_def)

lemma adxCheck_adds: "fst (adxCheck inp (s, n)) = s + contribution adxCheck inp"
  by (cases "adx inp") (simp_all add: contribution_def adxCheck_def)

lemma stochCheck_adds: "fst (stochCheck inp (s, n)) = s + contribution stochCheck inp"
  by (cases "stoch inp") (auto simp add: contribution_def stochCheck_def)

lemma cciCheck_adds: "fst (cciCheck inp (s, n)) = s + contribution cciCheck inp"
  by (simp add: contribution_def cciCheck_def)

lemma check_adds:
  assumes "c \<in> set signalChecks"
  shows "fst (c inp (s, n)) = s + contribution c inp"
proof -
  from assms consider "c = trendCheck" | "c = rsiCheck" | "c = macdCheck" | "c = bbCheck"
    | "c = adxCheck" | "c = stochCheck" | "c = cciCheck"
    unfolding signalChecks_def by auto
  then show ?thesis
    by cases (simp_all only: trendCheck_adds rsiCheck_adds macdCheck_adds bbCheck_adds
        adxCheck_adds stochCheck_adds cciCheck_adds)
qed

lemma contribution_half:
  assumes "c \<in> set signalChecks"
  shows "contribution c inp \<in> {- 1, - (1 / 2), 0, 1 / 2, 1}"
proof -
  have h1: "contribution trendCheck inp \<in> {- 1, - (1 / 2), 0, 1 / 2, 1}"
    by (simp add: contribution_def trendCheck_def)
  have h2: "contribution rsiCheck inp \<in> {- 1, - (1 / 2), 0, 1 / 2, 1}"
    by (simp add: contribution_def rsiCheck_def)
  have h3: "contribution macdCheck inp \<in> {- 1, - (1 / 2), 0, 1 / 2, 1}"
    by (cases "macd inp") (simp_all add: contribution_def macdCheck_def)
  have h4: "contribution bbCheck inp \<in> {- 1, - (1 / 2), 0, 1 / 2, 1}"
    by (cases "bb inp") (simp_all add: contribution_def bbCheck_def Let_def)
  have h5: "contribution adxCheck inp \<in> {- 1, - (1 / 2), 0, 1 / 2, 1}"
    by (cases "adx inp") (simp_all add: contribution_def adxCheck_def)
  have h6: "contribution stochCheck inp \<in> {- 1, - (1 / 2), 0, 1 / 2, 1}"
    by (cases "stoch inp") (simp_all add: contribution_def stochCheck_def)
  have h7: "contribution cciCheck inp \<in> {- 1, - (1 / 2), 0, 1 / 2, 1}"
    by (simp add: contribution_def cciCheck_def)
  from assms consider "c = trendCheck" | "c = rsiCheck" | "c = macdCheck" | "c = bbCheck"
    | "c = adxCheck" | "c = stochCheck" | "c = cciCheck"
    unfolding signalChecks_def by auto
  then show ?thesis
  proof cases
    case 1 then show ?thesis by (simp only: h1)
  next
    case 2 then show ?thesis by (simp only: h2)
  next
    case 3 then show ?thesis by (simp only: h3)
  next
    case 4 then show ?thesis by (simp only: h4)
  next
    case 5 then show ?thesis by (simp only: h5)
  next
    case 6 then show ?thesis by (simp only: h6)
  next
    case 7 then show ?thesis by (simp only: h7)
  qed
qed

lemma foldl_checks_sum:
  assumes "set cs \<subseteq> set signalChecks"
  shows "fst (foldl (\<lambda>st c. c inp st) (s, n) cs) = s + sum_list (map (\<lambda>c. contribution c inp) cs)"
  using assms
proof (induction cs arbitrary: s n)
  case Nil
  then show ?case by simp
next
  case (Cons c cs)
  obtain s' n' where st: "c inp (s, n) = (s', n')" by (cases "c inp (s, n)")
  have "s' = s + contribution c inp"
    using check_adds [of c inp s n] Cons.prems st by simp
  moreover have "fst (foldl (\<lambda>st c. c inp st) (s', n') cs) = s' + sum_list (map (\<lambda>c. contribution c inp) cs)"
    using Cons.IH [of s' n'] Cons.prems by simp
  ultimately show ?case by (simp add: st)
qed

lemma runChecks_sum:
  assumes "set cs \<subseteq> set signalChecks"
  shows "fst (runChecks cs inp) = sum_list (map (\<lambda>c. contribution c inp) cs)"
  using foldl_checks_sum [OF assms, of inp 0 "[]"] by (simp add: runChecks_def)

lemma score_decideSignal:
  "score (decideSignal inp) = toFixed_real 2 (fst (runChecks signalChecks inp))"
  by (simp add: decideSignal_def Let_def split: prod.splits)

text \<open>
  C8. The total score does not depend on the order of the seven blocks: running them
  in any arrangement \<open>cs\<close> of the source's list leaves the same score as the source
  order, hence the same reported score. (The notes do depend on the order.)
\<close>

theorem score_order_invariant:
  assumes "mset cs = mset signalChecks"
  shows "fst (runChecks cs inp) = fst (runChecks signalChecks inp) \<and>
         toFixed_real 2 (fst (runChecks cs inp)) = score (decideSignal inp)"
proof -
  have sub: "set cs \<subseteq> set signalChecks"
    using assms by (metis mset_eq_setD subset_refl)
  have "sum_list (map (\<lambda>c. contribution c inp) cs) = sum_mset (image_mset (\<lambda>c. contribution c inp) (mset cs))"
    by (metis mset_map sum_mset_sum_list)
  also have "\<dots> = sum_mset (image_mset (\<lambda>c. contribution c inp) (mset signalChecks))"
    by (simp add: assms)
  also have "\<dots> = sum_list (map (\<lambda>c. contribution c inp) signalChecks)"
    by (metis mset_map sum_mset_sum_list)
  finally have "fst (runChecks cs inp) = fst (runChecks signalChecks inp)"
    using runChecks_sum [OF sub] runChecks_sum [of signalChecks inp] by simp
  then show ?thesis by (simp add: score_decideSignal)
qed

theorem score_order_invariant_witness:
  "fst (runChecks [cciCheck, stochCheck, adxCheck, bbCheck, macdCheck, rsiCheck, trendCheck]
     \<lparr>rsi = JNum (Fin 25), macd = None, bb = None, adx = None, stoch = None, cci = JNum (Fin 150),
      ema50 = JNum (Fin 5), ema200 = JNum (Fin 4), close = JNum (Fin 5)\<rparr>) = 3 / 2"
proof -
  have m: "mset [cciCheck, stochCheck, adxCheck, bbCheck, macdCheck, rsiCheck, trendCheck] = mset signalChecks"
    by (simp add: signalChecks_def)
  have r: "fst (runChecks signalChecks
     \<lparr>rsi = JNum (Fin 25), macd = None, bb = None, adx = None, stoch = None, cci = JNum (Fin 150),
      ema50 = JNum (Fin 5), ema200 = JNum (Fin 4), close = JNum (Fin 5)\<rparr>) = 3 / 2"
    by (simp add: runChecks_def signalChecks_def trendCheck_def rsiCheck_def macdCheck_def
      bbCheck_def adxCheck_def stochCheck_def cciCheck_def vgt_def vlt_def jgt_def)
  show ?thesis using score_order_invariant [OF m] r by simp
qed

subsection \<open>Rounding and the verdict\<close>

lemma toFixed_real_round:
  assumes "\<bar>x\<bar> < 10 ^ 21"
  shows "\<exists>k::int. toFixed_real d x = of_int k / 10 ^ d" and "\<bar>toFixed_real d x - x\<bar> \<le> 1 / (2 * 10 ^ d)"
proof -
  define y where "y = \<bar>x\<bar> * 10 ^ d"
  define n where "n = \<lfloor>y + 1 / 2\<rfloor>"
  have tf: "toFixed_real d x = sgn x * (of_int n / 10 ^ d)"
    using assms by (simp add: toFixed_real_def n_def y_def)
  have "sgn x = 1 \<or> sgn x = 0 \<or> sgn x = - 1"
    by (simp add: sgn_real_def)
  then have "toFixed_real d x = of_int (1 * n) / 10 ^ d \<or> toFixed_real d x = of_int (0 * n) / 10 ^ d
      \<or> toFixed_real d x = of_int (- 1 * n) / 10 ^ d"
    using tf by auto
  then show "\<exists>k::int. toFixed_real d x = of_int k / 10 ^ d" by blast
  have x: "x = sgn x * (y / 10 ^ d)"
    by (simp add: y_def sgn_real_def)
  have "of_int n \<le> y + 1 / 2" "y + 1 / 2 < of_int n + 1"
    unfolding n_def by linarith+
  then have nb: "\<bar>of_int n - y\<bar> \<le> 1 / 2" by linarith
  have "toFixed_real d x - x = sgn x * ((of_int n - y) / 10 ^ d)"
    using tf x by (metis diff_divide_distrib right_diff_distrib)
  then have "\<bar>toFixed_real d x - x\<bar> = \<bar>sgn x\<bar> * (\<bar>of_int n - y\<bar> / 10 ^ d)"
    by (simp add: abs_mult)
  also have "\<dots> \<le> 1 * ((1 / 2) / 10 ^ d)"
    by (intro mult_mono divide_right_mono nb) (auto simp: sgn_real_def)
  finally show "\<bar>toFixed_real d x - x\<bar> \<le> 1 / (2 * 10 ^ d)" by simp
qed

lemma total_half_steps:
  "\<exists>m::int. fst (runChecks signalChecks inp) = of_int m / 2 \<and> \<bar>m\<bar> \<le> 14"
proof -
  have h: "\<exists>m::int. contribution c inp = of_int m / 2 \<and> \<bar>m\<bar> \<le> 2" if "c \<in> set signalChecks" for c
  proof -
    have "contribution c inp = of_int (- 2) / 2 \<or> contribution c inp = of_int (- 1) / 2 \<or>
          contribution c inp = of_int 0 / 2 \<or> contribution c inp = of_int 1 / 2 \<or>
          contribution c inp = of_int 2 / 2"
      using contribution_half [OF that, of inp] by auto
    then show ?thesis by fastforce
  qed
  have g: "\<exists>m::int. sum_list (map (\<lambda>c. contribution c inp) cs) = of_int m / 2 \<and> \<bar>m\<bar> \<le> 2 * int (length cs)"
    if "set cs \<subseteq> set signalChecks" for cs
    using that
  proof (induction cs)
    case Nil
    then show ?case by simp
  next
    case (Cons c cs)
    obtain m1 :: int where m1: "contribution c inp = of_int m1 / 2" "\<bar>m1\<bar> \<le> 2"
      using h [of c] Cons.prems by auto
    obtain m2 :: int where m2: "sum_list (map (\<lambda>c. contribution c inp) cs) = of_int m2 / 2"
        "\<bar>m2\<bar> \<le> 2 * int (length cs)"
      using Cons by auto
    have "sum_list (map (\<lambda>c. contribution c inp) (c # cs)) = of_int (m1 + m2) / 2"
      using m1 m2 by (simp add: add_divide_distrib)
    moreover have "\<bar>m1 + m2\<bar> \<le> 2 * int (length (c # cs))"
      using m1 m2 by simp
    ultimately show ?case by blast
  qed
  show ?thesis
    using g [of signalChecks] runChecks_sum [of signalChecks inp] by (simp add: signalChecks_def)
qed

lemma toFixed_half:
  assumes "\<bar>m\<bar> \<le> (14::int)"
  shows "toFixed_real 2 (of_int m / 2) = of_int m / 2"
proof -
  have small: "\<not> (10 ^ 21 \<le> \<bar>(of_int m :: real) / 2\<bar>)"
  proof -
    have "\<bar>(of_int m :: real)\<bar> \<le> 14" using assms by (metis of_int_abs of_int_le_iff of_int_numeral)
    then show ?thesis by simp
  qed
  have "\<bar>(of_int m :: real) / 2\<bar> * 10 ^ 2 + 1 / 2 = of_int (50 * \<bar>m\<bar>) + 1 / 2"
    by simp
  moreover have "\<lfloor>(of_int (50 * \<bar>m\<bar>) :: real) + 1 / 2\<rfloor> = 50 * \<bar>m\<bar>"
    by linarith
  ultimately have fl: "\<lfloor>\<bar>(of_int m :: real) / 2\<bar> * 10 ^ 2 + 1 / 2\<rfloor> = 50 * \<bar>m\<bar>"
    by simp
  show ?thesis
    using small by (simp add: toFixed_real_def fl sgn_real_def)
qed

lemma score_is_total:
  "score (decideSignal inp) = fst (runChecks signalChecks inp)"
proof -
  obtain m :: int where "fst (runChecks signalChecks inp) = of_int m / 2" "\<bar>m\<bar> \<le> 14"
    using total_half_steps [of inp] by blast
  then show ?thesis
    unfolding score_decideSignal using toFixed_half [of m] by presburger
qed

text \<open>
  C5. The verdict of \<open>decideSignal\<close> is LEAN LONG when the accumulated total is at
  least \<open>1.5\<close>, LEAN SHORT when it is at most \<open>-1.5\<close>, NEUTRAL otherwise, decided on the
  unrounded total; the reported score is the total through \<open>toFixed(2)\<close>, a multiple of
  \<open>0.01\<close> within \<open>0.005\<close> of the total.
\<close>

theorem verdict_thresholds_and_rounding:
  "verdict (decideSignal inp) =
     (if fst (runChecks signalChecks inp) \<ge> 3 / 2 then ''LEAN LONG''
      else if fst (runChecks signalChecks inp) \<le> - (3 / 2) then ''LEAN SHORT''
      else ''NEUTRAL / WAIT'') \<and>
   score (decideSignal inp) = toFixed_real 2 (fst (runChecks signalChecks inp)) \<and>
   (\<exists>k::int. score (decideSignal inp) = of_int k / 10 ^ 2) \<and>
   \<bar>score (decideSignal inp) - fst (runChecks signalChecks inp)\<bar> \<le> 1 / (2 * 10 ^ 2)"
proof -
  have "\<bar>fst (runChecks signalChecks inp)\<bar> < 10 ^ 21"
    using total_half_steps [of inp] by auto
  from toFixed_real_round [OF this, of 2]
  show ?thesis
    by (cases "runChecks signalChecks inp") (simp add: decideSignal_def Let_def)
qed

theorem verdict_thresholds_and_rounding_witness:
  "verdict (decideSignal \<lparr>rsi = JNum (Fin 25), macd = None, bb = None, adx = None, stoch = None,
      cci = JNum (Fin (- 150)), ema50 = JNum (Fin 5), ema200 = JNum (Fin 6), close = JNum (Fin 5)\<rparr>)
     = ''NEUTRAL / WAIT'' \<and>
   score (decideSignal \<lparr>rsi = JNum (Fin 25), macd = None, bb = None, adx = None, stoch = None,
      cci = JNum (Fin (- 150)), ema50 = JNum (Fin 5), ema200 = JNum (Fin 6), close = JNum (Fin 5)\<rparr>)
     = 1 / 2"
proof -
  have r: "fst (runChecks signalChecks
     \<lparr>rsi = JNum (Fin 25), macd = None, bb = None, adx = None, stoch = None, cci = JNum (Fin (- 150)),
      ema50 = JNum (Fin 5), ema200 = JNum (Fin 6), close = JNum (Fin 5)\<rparr>) = 1 / 2"
    by (simp add: runChecks_def signalChecks_def trendCheck_def rsiCheck_def macdCheck_def
      bbCheck_def adxCheck_def stochCheck_def cciCheck_def vgt_def vlt_def jgt_def)
  have t: "toFixed_real 2 (1 / 2) = 1 / 2"
    using toFixed_half [of 1] by simp
  show ?thesis
    using verdict_thresholds_and_rounding [of "\<lparr>rsi = JNum (Fin 25), macd = None, bb = None,
      adx = None, stoch = None, cci = JNum (Fin (- 150)), ema50 = JNum (Fin 5), ema200 = JNum (Fin 6),
      close = JNum (Fin 5)\<rparr>"] r t
    by simp
qed

section \<open>Properties of the aggregator\<close>

lemma foldl_plus_sum_list:
  "foldl (\<lambda>a r. a + f r) (acc :: real) xs = acc + sum_list (map f xs)"
  by (induction xs arbitrary: acc) simp_all

lemma sum_weights: "(\<Sum>tf\<leftarrow>TIMEFRAMES. real (weight tf)) = 6"
  by (simp add: TIMEFRAMES_def)

lemma analyzeAll_map:
  assumes "analyzeAll fetch assetId tfs = Some perTF"
  shows "perTF = map (\<lambda>tf. analyzeOneTF (the (fetch assetId (interval tf))) tf) tfs"
  using assms
  by (induction tfs arbitrary: perTF) (auto split: option.splits)

lemma analyzeOneTF_fields:
  "tf_score (analyzeOneTF rows tf) = score (decideSignal (indicatorsOf rows))"
  "tf_weight (analyzeOneTF rows tf) = weight tf"
  by (simp_all add: analyzeOneTF_def Let_def)

lemma totalW_eq: "totalW = 6"
  by (simp add: totalW_def TIMEFRAMES_def)

lemma rnd_error_le:
  assumes "\<bar>x\<bar> < 2 powi n" and "- 1021 \<le> n"
  shows "\<bar>rnd x - x\<bar> \<le> 2 powi (n - 54)"
proof (cases "x = 0")
  case True
  then show ?thesis by simp
next
  case False
  have "expo x < n"
    using False assms(1) by (rule expo_less)
  then have "ulpexp x \<le> n - 53"
    using assms(2) by (simp add: ulpexp_def)
  then have "(2::real) powi ulpexp x \<le> 2 powi (n - 53)"
    by (intro power_int_increasing) simp_all
  moreover have "(2::real) powi (n - 53) = 2 * 2 powi (n - 54)"
    using power_int_add [of "2::real" 1 "n - 54"] by simp
  ultimately show ?thesis
    using rnd_error [of x] by linarith
qed

lemma score_bound: "\<bar>score (decideSignal inp)\<bar> \<le> 7"
proof -
  obtain m :: int where m: "fst (runChecks signalChecks inp) = of_int m / 2" "\<bar>m\<bar> \<le> 14"
    using total_half_steps [of inp] by blast
  have "\<bar>of_int m :: real\<bar> \<le> 14"
    using m(2) by (metis of_int_abs of_int_le_iff of_int_numeral)
  then show ?thesis
    by (simp add: score_is_total m(1))
qed

lemma perTF_sum_bound:
  assumes "analyzeAll fetch assetId TIMEFRAMES = Some perTF"
  shows "\<bar>\<Sum>r\<leftarrow>perTF. tf_score r * real (tf_weight r)\<bar> \<le> 42"
proof -
  have m: "perTF = map (\<lambda>tf. analyzeOneTF (the (fetch assetId (interval tf))) tf) TIMEFRAMES"
    using assms by (rule analyzeAll_map)
  define s1 where "s1 = score (decideSignal (indicatorsOf (the (fetch assetId 900))))"
  define s2 where "s2 = score (decideSignal (indicatorsOf (the (fetch assetId 3600))))"
  define s3 where "s3 = score (decideSignal (indicatorsOf (the (fetch assetId 86400))))"
  have b: "\<bar>s1\<bar> \<le> 7" "\<bar>s2\<bar> \<le> 7" "\<bar>s3\<bar> \<le> 7"
    unfolding s1_def s2_def s3_def by (rule score_bound)+
  have "(\<Sum>r\<leftarrow>perTF. tf_score r * real (tf_weight r)) = s1 + s2 * 2 + s3 * 3"
    by (subst m) (simp add: TIMEFRAMES_def analyzeOneTF_fields s1_def s2_def s3_def)
  then show ?thesis
    using b by linarith
qed

lemma weightedScoreOf_value:
  assumes "\<bar>\<Sum>r\<leftarrow>perTF. tf_score r * real (tf_weight r)\<bar> \<le> 42"
  shows "weightedScoreOf perTF = Fin (rnd ((\<Sum>r\<leftarrow>perTF. tf_score r * real (tf_weight r)) / 6))"
    and "\<bar>rnd ((\<Sum>r\<leftarrow>perTF. tf_score r * real (tf_weight r)) / 6)
          - (\<Sum>r\<leftarrow>perTF. tf_score r * real (tf_weight r)) / 6\<bar> \<le> 1 / 10 ^ 9"
proof -
  define x where "x = (\<Sum>r\<leftarrow>perTF. tf_score r * real (tf_weight r)) / 6"
  have x: "\<bar>x\<bar> \<le> 7"
    using assms by (simp add: x_def)
  have r8: "rnd 8 = 8"
    using rnd_int [of 8] by simp
  have "round64 x = Fin (rnd x)"
    using x r8 by (intro round64_bound(1) [of x 8]) simp_all
  then show "weightedScoreOf perTF = Fin (rnd ((\<Sum>r\<leftarrow>perTF. tf_score r * real (tf_weight r)) / 6))"
    by (simp add: weightedScoreOf_def totalW_eq foldl_plus_sum_list x_def)
  have "\<bar>x\<bar> < 2 powi 3"
    using x by simp
  then have "\<bar>rnd x - x\<bar> \<le> 2 powi (3 - 54)"
    by (rule rnd_error_le) simp
  also have "\<dots> \<le> 1 / 10 ^ 9"
    by (simp add: power_int_minus_divide)
  finally show "\<bar>rnd ((\<Sum>r\<leftarrow>perTF. tf_score r * real (tf_weight r)) / 6)
          - (\<Sum>r\<leftarrow>perTF. tf_score r * real (tf_weight r)) / 6\<bar> \<le> 1 / 10 ^ 9"
    by (simp only: x_def)
qed

text \<open>
  C2. When \<open>analyzeAsset\<close> completes, the weighted score it computes from the three
  per-timeframe results (each the reported score of \<open>decideSignal\<close> on that timeframe's
  rows, with the configured weight) is the sum of score times weight over the sum of
  the weights, the verdict is decided on that value with the inclusive bounds \<open>1\<close> and
  \<open>-1\<close>, and the record stores the value through \<open>toFixed(3)\<close>. The scores are multiples
  of \<open>0.5\<close> of magnitude at most \<open>7\<close> and the weights small integers, so the sum is exact
  in double precision and only the final division rounds; its result is within \<open>2\<^sup>-\<^sup>5\<^sup>1\<close>
  of the quotient.
\<close>

theorem weighted_score_and_global_verdict:
  assumes "analyzeAsset fetch assetId now lp = Some a"
  shows "\<exists>perTF ws.
           analyzeAll fetch assetId TIMEFRAMES = Some perTF \<and>
           map tf_score perTF =
             map (\<lambda>tf. score (decideSignal (indicatorsOf (the (fetch assetId (interval tf)))))) TIMEFRAMES \<and>
           map tf_weight perTF = map weight TIMEFRAMES \<and>
           weightedScoreOf perTF = Fin ws \<and>
           \<bar>ws - (\<Sum>r\<leftarrow>perTF. tf_score r * real (tf_weight r)) / (\<Sum>tf\<leftarrow>TIMEFRAMES. real (weight tf))\<bar>
             \<le> 1 / 10 ^ 9 \<and>
           a_verdict a = (if ws \<ge> 1 then ''GLOBAL: LEAN LONG''
                          else if ws \<le> - 1 then ''GLOBAL: LEAN SHORT''
                          else ''NEUTRAL / WAIT'') \<and>
           weightedScore a = Fin (toFixed_real 3 ws)"
proof -
  obtain perTF where all: "analyzeAll fetch assetId TIMEFRAMES = Some perTF"
    and v: "a_verdict a = globalVerdictOf (weightedScoreOf perTF)"
    and w: "weightedScore a = plus_toFixed 3 (weightedScoreOf perTF)"
    using assms by (auto simp: analyzeAsset_def Let_def split: option.splits)
  define ws where "ws = rnd ((\<Sum>r\<leftarrow>perTF. tf_score r * real (tf_weight r)) / 6)"
  have b: "\<bar>\<Sum>r\<leftarrow>perTF. tf_score r * real (tf_weight r)\<bar> \<le> 42"
    using all by (rule perTF_sum_bound)
  have wsf: "weightedScoreOf perTF = Fin ws"
    unfolding ws_def using b by (rule weightedScoreOf_value(1))
  have m: "perTF = map (\<lambda>tf. analyzeOneTF (the (fetch assetId (interval tf))) tf) TIMEFRAMES"
    using all by (rule analyzeAll_map)
  have s: "map tf_score perTF =
             map (\<lambda>tf. score (decideSignal (indicatorsOf (the (fetch assetId (interval tf)))))) TIMEFRAMES"
    by (subst m) (simp add: analyzeOneTF_fields o_def)
  have wt: "map tf_weight perTF = map weight TIMEFRAMES"
    by (subst m) (simp add: analyzeOneTF_fields o_def)
  have verd: "a_verdict a = (if ws \<ge> 1 then ''GLOBAL: LEAN LONG''
                          else if ws \<le> - 1 then ''GLOBAL: LEAN SHORT''
                          else ''NEUTRAL / WAIT'')"
    by (auto simp: v wsf globalVerdictOf_def jge_def jle_def jeq_def)
  have tol: "\<bar>ws - (\<Sum>r\<leftarrow>perTF. tf_score r * real (tf_weight r)) / (\<Sum>tf\<leftarrow>TIMEFRAMES. real (weight tf))\<bar>
             \<le> 1 / 10 ^ 9"
    unfolding ws_def sum_weights using b by (rule weightedScoreOf_value(2))
  show ?thesis
    using all s wt wsf tol verd w by (intro exI [of _ perTF] exI [of _ ws]) simp
qed

section \<open>Properties of the live price cache\<close>

lemma handleEntry_valid:
  assumes "entryTick idn now e = Some t"
  shows "handleEntry now c e = Inr (c(idn \<mapsto> t))"
proof (cases e)
  case (Pair pairKey payload)
  obtain it where it: "instruments0 payload = Some it"
    using assms Pair by (cases "instruments0 payload") (simp_all add: entryTick_def)
  obtain pr where id: "p_id payload = Some (Converted (Fin idn))"
    and pr: "currentPrice it = Converted (Fin pr)"
    and ok: "timestamp it \<noteq> Some ConvThrows" "tradingPair it \<noteq> PairThrows"
    and t: "t = \<lparr>price = Fin pr,
                  ts = (case timestamp it of Some (Converted n) \<Rightarrow> n | _ \<Rightarrow> Fin (real now)),
                  pair = (case tradingPair it of PairUpper s \<Rightarrow> s | _ \<Rightarrow> pairKey)\<rparr>"
    using assms Pair it
    by (auto simp: entryTick_def split: option.splits conv.splits jsnum.splits if_splits)
  show ?thesis
    using ok
    by (cases "tradingPair it")
       (auto simp: Pair handleEntry_def it id pr t Let_def split: option.splits conv.splits)
qed

lemma forEachEntry_valid:
  assumes "\<forall>e \<in> set es. entryTick idn now e \<noteq> None"
  shows "forEachEntry now c es idn = (if es = [] then c idn else entryTick idn now (last es))"
  using assms
proof (induction es arbitrary: c)
  case Nil
  then show ?case by simp
next
  case (Cons e es)
  obtain t where t: "entryTick idn now e = Some t"
    using Cons.prems by auto
  have step: "handleEntry now c e = Inr (c(idn \<mapsto> t))"
    using t by (rule handleEntry_valid)
  have rest: "\<forall>e \<in> set es. entryTick idn now e \<noteq> None"
    using Cons.prems by simp
  have ih: "forEachEntry now (c(idn \<mapsto> t)) es idn =
      (if es = [] then (c(idn \<mapsto> t)) idn else entryTick idn now (last es))"
    by (rule Cons.IH [OF rest])
  have "forEachEntry now c (e # es) idn = forEachEntry now (c(idn \<mapsto> t)) es idn"
    by (simp only: forEachEntry.simps step sum.case)
  also have "\<dots> = (if es = [] then Some t else entryTick idn now (last es))"
    by (simp only: ih) simp
  finally show ?case
    by (simp add: t)
qed

lemma ticksOf_append: "ticksOf (xs @ ys) = ticksOf xs @ ticksOf ys"
  by (induction xs rule: ticksOf.induct) simp_all

lemma run_snoc: "run (evs @ [ev]) = step (run evs) ev"
  by (simp add: run_def)

lemma livePrices_other:
  assumes "ticksOf [ev] = []"
  shows "livePrices (step s ev) = livePrices s"
proof (cases ev)
  case (WssMessage now msg)
  then show ?thesis
    using assms by (cases msg) (simp_all add: onMessage_def)
next
  case (RunAnalyze now assetId fetch)
  then show ?thesis by (simp split: option.splits)
next
  case (TimerFires now2 k)
  then show ?thesis by (simp split: option.splits)
qed

lemma livePrices_last_valid:
  assumes "ticksOf evs \<noteq> []"
    and "\<forall>t \<in> set (ticksOf evs). entryTick idn (fst t) (snd t) \<noteq> None"
  shows "livePrices (run evs) idn = entryTick idn (fst (last (ticksOf evs))) (snd (last (ticksOf evs)))"
  using assms
proof (induction evs rule: rev_induct)
  case Nil
  then show ?case by simp
next
  case (snoc ev evs)
  show ?case
  proof (cases "ticksOf [ev] = []")
    case True
    then have same: "ticksOf (evs @ [ev]) = ticksOf evs"
      by (simp add: ticksOf_append)
    show ?thesis
      using snoc True by (simp add: same run_snoc livePrices_other)
  next
    case False
    then obtain now msg where ev0: "ev = WssMessage now msg"
      by (cases ev) simp_all
    then obtain entries where ev: "ev = WssMessage now (Parsed entries)" and ne: "entries \<noteq> []"
      using False by (cases msg) simp_all
    have t: "ticksOf (evs @ [ev]) = ticksOf evs @ map (Pair now) entries"
      by (simp add: ticksOf_append ev)
    have valid: "\<forall>e \<in> set entries. entryTick idn now e \<noteq> None"
    proof
      fix e
      assume "e \<in> set entries"
      then have "(now, e) \<in> set (ticksOf (evs @ [ev]))"
        by (simp add: t)
      then have "entryTick idn (fst (now, e)) (snd (now, e)) \<noteq> None"
        using snoc.prems(2) by blast
      then show "entryTick idn now e \<noteq> None"
        by simp
    qed
    have "last (ticksOf (evs @ [ev])) = (now, last entries)"
      using ne by (simp add: t last_map)
    then show ?thesis
      using forEachEntry_valid [OF valid, of "livePrices (run evs)"] ne
      by (simp add: run_snoc ev onMessage_def)
  qed
qed

text \<open>
  C7, as the code has it. A valid tick of the instrument \<open>idn\<close> is an entry that the
  handler stores under \<open>idn\<close>: it has an item, its identifier converts to \<open>idn\<close>, its price
  to a finite number, and none of its conversions throws. The handler overwrites
  \<open>livePrices[id]\<close> without looking at the timestamp already stored, so after any run
  whose ticks are all valid ticks of one instrument the cache holds the tick applied
  last, in arrival order.
\<close>

theorem cache_holds_last_applied:
  assumes "ticksOf evs \<noteq> []"
    and "\<forall>t \<in> set (ticksOf evs). entryTick idn (fst t) (snd t) \<noteq> None"
  shows "livePrices (run evs) idn = entryTick idn (fst (last (ticksOf evs))) (snd (last (ticksOf evs)))"
  using assms by (rule livePrices_last_valid)

theorem cache_holds_last_applied_witness:
  "livePrices (run
      [WssMessage 5 (Parsed [(''k'', \<lparr>p_id = Some (Converted (Fin 7)), instruments0 =
          Some \<lparr>currentPrice = Converted (Fin 10), timestamp = Some (Converted (Fin 2)),
                tradingPair = PairUpper ''BTC''\<rparr>\<rparr>)]),
       WssMessage 6 (Parsed [(''k'', \<lparr>p_id = Some (Converted (Fin 7)), instruments0 =
          Some \<lparr>currentPrice = Converted (Fin 20), timestamp = Some (Converted (Fin 1)),
                tradingPair = PairUpper ''BTC''\<rparr>\<rparr>)])]) 7
     = Some \<lparr>price = Fin 20, ts = Fin 1, pair = ''BTC''\<rparr>"
  using cache_holds_last_applied [of
      "[WssMessage 5 (Parsed [(''k'', \<lparr>p_id = Some (Converted (Fin 7)), instruments0 =
          Some \<lparr>currentPrice = Converted (Fin 10), timestamp = Some (Converted (Fin 2)),
                tradingPair = PairUpper ''BTC''\<rparr>\<rparr>)]),
       WssMessage 6 (Parsed [(''k'', \<lparr>p_id = Some (Converted (Fin 7)), instruments0 =
          Some \<lparr>currentPrice = Converted (Fin 20), timestamp = Some (Converted (Fin 1)),
                tradingPair = PairUpper ''BTC''\<rparr>\<rparr>)])]" 7]
  by (simp add: entryTick_def)

text \<open>
  C7, as stated, fails: a tick stamped \<open>2\<close> followed by a tick stamped \<open>1\<close> leaves the
  tick stamped \<open>1\<close> in the cache, not the one with the latest timestamp.
\<close>

theorem cache_latest_timestamp_counterexample:
  "livePrices (run
      [WssMessage 5 (Parsed [(''k'', \<lparr>p_id = Some (Converted (Fin 7)), instruments0 =
          Some \<lparr>currentPrice = Converted (Fin 10), timestamp = Some (Converted (Fin 2)),
                tradingPair = PairUpper ''BTC''\<rparr>\<rparr>)]),
       WssMessage 6 (Parsed [(''k'', \<lparr>p_id = Some (Converted (Fin 7)), instruments0 =
          Some \<lparr>currentPrice = Converted (Fin 20), timestamp = Some (Converted (Fin 1)),
                tradingPair = PairUpper ''BTC''\<rparr>\<rparr>)])]) 7
     = Some \<lparr>price = Fin 20, ts = Fin 1, pair = ''BTC''\<rparr> \<and>
   jlt (Fin 1) (Fin 2)"
  by (simp add: run_def init_def onMessage_def handleEntry_def)

text \<open>
  A throw inside the loop drops the rest of the message: of three entries for one
  instrument whose second has a \<open>tradingPair\<close> with a non-callable \<open>toUpperCase\<close>, only
  the first reaches the cache.
\<close>

lemma throw_drops_rest_of_message:
  "livePrices (run
      [WssMessage 5 (Parsed
         [(''a'', \<lparr>p_id = Some (Converted (Fin 7)), instruments0 =
             Some \<lparr>currentPrice = Converted (Fin 10), timestamp = None, tradingPair = PairMissing\<rparr>\<rparr>),
          (''b'', \<lparr>p_id = Some (Converted (Fin 7)), instruments0 =
             Some \<lparr>currentPrice = Converted (Fin 20), timestamp = None, tradingPair = PairThrows\<rparr>\<rparr>),
          (''c'', \<lparr>p_id = Some (Converted (Fin 7)), instruments0 =
             Some \<lparr>currentPrice = Converted (Fin 30), timestamp = None, tradingPair = PairMissing\<rparr>\<rparr>)])]) 7
     = Some \<lparr>price = Fin 10, ts = Fin 5, pair = ''a''\<rparr>"
  by (simp add: run_def init_def onMessage_def handleEntry_def)

section \<open>Properties of the running process\<close>

lemma analysisIds_append: "analysisIds (xs @ ys) = analysisIds xs @ analysisIds ys"
  by (induction xs rule: analysisIds.induct) simp_all

lemma outcomeIds_append: "outcomeIds (xs @ ys) = outcomeIds xs @ outcomeIds ys"
  by (induction xs rule: outcomeIds.induct) simp_all

lemma in_analysisIds: "k \<in> set (analysisIds ls) \<longleftrightarrow> (\<exists>a. AnalysisLine k a \<in> set ls)"
  by (induction ls rule: analysisIds.induct) auto

lemma in_outcomeIds: "k \<in> set (outcomeIds ls) \<longleftrightarrow> (\<exists>out. OutcomeLine k out \<in> set ls)"
  by (induction ls rule: outcomeIds.induct) auto

lemma spotOf_cases: "spotOf lp k = JNull \<or> (\<exists>x. spotOf lp k = JNum x)"
  by (simp add: spotOf_def split: option.splits)

lemma analyzeAsset_wf:
  assumes "analyzeAsset fetch assetId now lp = Some a"
  shows "wf_analysis a"
proof -
  obtain perTF where "analyzeAll fetch assetId TIMEFRAMES = Some perTF"
    and a: "a = \<lparr>a_t = now, a_epoch = now div 1000, a_assetId = assetId, a_pair = pairOf lp assetId,
                 spotAtAnalysis = spotOf lp assetId,
                 weightedScore = plus_toFixed 3 (weightedScoreOf perTF),
                 a_verdict = globalVerdictOf (weightedScoreOf perTF),
                 a_perTF = map (\<lambda>r. (tf_label r, tf_close r, tf_score r)) perTF\<rparr>"
    using assms by (auto simp: analyzeAsset_def Let_def split: option.splits)
  have "analyzeAll fetch assetId TIMEFRAMES = Some perTF" by fact
  then have "\<bar>\<Sum>r\<leftarrow>perTF. tf_score r * real (tf_weight r)\<bar> \<le> 42"
    by (rule perTF_sum_bound)
  then obtain ws where "weightedScoreOf perTF = Fin ws"
    using weightedScoreOf_value(1) by blast
  then show ?thesis
    using spotOf_cases [of lp assetId] by (auto simp: a wf_analysis_def)
qed

lemma inv_init: "inv init"
  by (simp add: inv_def init_def)

lemma inv_message: "inv s \<Longrightarrow> inv (s\<lparr>livePrices := c\<rparr>)"
  by (simp add: inv_def)

lemma inv_analyze:
  assumes "inv s" and "wf_analysis r"
  shows "inv (s\<lparr>journal := journal s @ [AnalysisLine (nextId s) r],
                timers := timers s @ [(nextId s, r)],
                nextId := Suc (nextId s)\<rparr>)"
proof -
  let ?k = "nextId s"
  have fresh: "?k \<notin> set (analysisIds (journal s))"
    using assms(1) by (auto simp: inv_def)
  have noout: "?k \<notin> set (outcomeIds (journal s))"
  proof
    assume "?k \<in> set (outcomeIds (journal s))"
    moreover have "set (outcomeIds (take (length (journal s)) (journal s))) \<subseteq> set (analysisIds (take (length (journal s)) (journal s)))"
      using assms(1) unfolding inv_def by blast
    ultimately show False using fresh by auto
  qed
  have tfresh: "?k \<notin> fst ` set (timers s)"
  proof
    assume "?k \<in> fst ` set (timers s)"
    then obtain r' where "(?k, r') \<in> set (timers s)" by auto
    then have "AnalysisLine ?k r' \<in> set (journal s)" using assms(1) by (auto simp: inv_def)
    then show False using fresh by (auto simp: in_analysisIds)
  qed
  have ord: "set (outcomeIds (take n (journal s @ [AnalysisLine ?k r]))) \<subseteq>
             set (analysisIds (take n (journal s @ [AnalysisLine ?k r])))" for n
  proof (cases "n \<le> length (journal s)")
    case True
    then show ?thesis using assms(1) by (simp add: inv_def)
  next
    case False
    have "set (outcomeIds (take (length (journal s)) (journal s))) \<subseteq> set (analysisIds (take (length (journal s)) (journal s)))"
      using assms(1) unfolding inv_def by blast
    then show ?thesis using False by (auto simp: outcomeIds_append analysisIds_append)
  qed
  let ?s' = "s\<lparr>journal := journal s @ [AnalysisLine ?k r], timers := timers s @ [(?k, r)], nextId := Suc ?k\<rparr>"
  have 1: "distinct (map fst (timers ?s'))"
    using assms(1) tfresh by (simp add: inv_def)
  have 2: "\<forall>(k, r) \<in> set (timers ?s'). AnalysisLine k r \<in> set (journal ?s') \<and> k \<notin> set (outcomeIds (journal ?s'))"
    using assms(1) noout by (auto simp: inv_def outcomeIds_append)
  have 3: "\<forall>k \<in> set (analysisIds (journal ?s')). k < nextId ?s'"
    using assms(1) by (auto simp: inv_def analysisIds_append less_Suc_eq)
  have 4: "distinct (analysisIds (journal ?s'))"
    using assms(1) fresh by (simp add: inv_def analysisIds_append)
  have 5: "distinct (outcomeIds (journal ?s'))"
    using assms(1) by (simp add: inv_def outcomeIds_append)
  have 6: "\<forall>n. set (outcomeIds (take n (journal ?s'))) \<subseteq> set (analysisIds (take n (journal ?s')))"
    using ord by simp
  have 7: "\<forall>k a. AnalysisLine k a \<in> set (journal ?s') \<longrightarrow> wf_analysis a"
    using assms by (auto simp: inv_def)
  have 8: "\<forall>k out. OutcomeLine k out \<in> set (journal ?s') \<longrightarrow>
         (\<exists>a lp now2. AnalysisLine k a \<in> set (journal ?s') \<and> out = checkOutcome a lp now2)"
  proof (intro allI impI)
    fix k out assume "OutcomeLine k out \<in> set (journal ?s')"
    then have "OutcomeLine k out \<in> set (journal s)" by simp
    then obtain a lp now2 where "AnalysisLine k a \<in> set (journal s)" "out = checkOutcome a lp now2"
      using assms(1) unfolding inv_def by blast
    then show "\<exists>a lp now2. AnalysisLine k a \<in> set (journal ?s') \<and> out = checkOutcome a lp now2"
      by auto
  qed
  show ?thesis
    unfolding inv_def using 1 2 3 4 5 6 7 8 by blast
qed

lemma inv_fire:
  assumes "inv s" and "map_of (timers s) k = Some r"
  shows "inv (s\<lparr>journal := journal s @ [OutcomeLine k (checkOutcome r (livePrices s) now2)],
                timers := filter (\<lambda>(k', _). k' \<noteq> k) (timers s)\<rparr>)"
proof -
  let ?out = "checkOutcome r (livePrices s) now2"
  let ?s' = "s\<lparr>journal := journal s @ [OutcomeLine k ?out], timers := filter (\<lambda>(k', _). k' \<noteq> k) (timers s)\<rparr>"
  have mem: "(k, r) \<in> set (timers s)"
    using assms(2) by (rule map_of_SomeD)
  have inlog: "AnalysisLine k r \<in> set (journal s)" and noout: "k \<notin> set (outcomeIds (journal s))"
    using assms(1) mem by (auto simp: inv_def)
  have ord: "set (outcomeIds (take n (journal s @ [OutcomeLine k ?out]))) \<subseteq>
             set (analysisIds (take n (journal s @ [OutcomeLine k ?out])))" for n
  proof (cases "n \<le> length (journal s)")
    case True
    then show ?thesis using assms(1) by (simp add: inv_def)
  next
    case False
    have "set (outcomeIds (take (length (journal s)) (journal s))) \<subseteq> set (analysisIds (take (length (journal s)) (journal s)))"
      using assms(1) unfolding inv_def by blast
    moreover have "k \<in> set (analysisIds (journal s))"
      using inlog by (auto simp: in_analysisIds)
    ultimately show ?thesis using False by (auto simp: outcomeIds_append analysisIds_append)
  qed
  have 1: "distinct (map fst (timers ?s'))"
    using assms(1) by (simp add: inv_def distinct_map_filter)
  have 2: "\<forall>(k', r') \<in> set (timers ?s'). AnalysisLine k' r' \<in> set (journal ?s') \<and> k' \<notin> set (outcomeIds (journal ?s'))"
    using assms(1) by (auto simp: inv_def outcomeIds_append)
  have 3: "\<forall>k \<in> set (analysisIds (journal ?s')). k < nextId ?s'"
    using assms(1) by (auto simp: inv_def analysisIds_append)
  have 4: "distinct (analysisIds (journal ?s'))"
    using assms(1) by (simp add: inv_def analysisIds_append)
  have 5: "distinct (outcomeIds (journal ?s'))"
    using assms(1) noout by (simp add: inv_def outcomeIds_append)
  have 6: "\<forall>n. set (outcomeIds (take n (journal ?s'))) \<subseteq> set (analysisIds (take n (journal ?s')))"
    using ord by simp
  have 7: "\<forall>k a. AnalysisLine k a \<in> set (journal ?s') \<longrightarrow> wf_analysis a"
    using assms(1) by (auto simp: inv_def)
  have 8: "\<forall>k' out. OutcomeLine k' out \<in> set (journal ?s') \<longrightarrow>
         (\<exists>a lp now2. AnalysisLine k' a \<in> set (journal ?s') \<and> out = checkOutcome a lp now2)"
  proof (intro allI impI)
    fix k' out assume "OutcomeLine k' out \<in> set (journal ?s')"
    then consider "OutcomeLine k' out \<in> set (journal s)" | "k' = k" "out = ?out" by auto
    then show "\<exists>a lp now2. AnalysisLine k' a \<in> set (journal ?s') \<and> out = checkOutcome a lp now2"
    proof cases
      case 1
      then obtain a lp now2 where "AnalysisLine k' a \<in> set (journal s)" "out = checkOutcome a lp now2"
        using assms(1) unfolding inv_def by blast
      then show ?thesis by auto
    next
      case 2
      then show ?thesis using inlog by auto
    qed
  qed
  show ?thesis
    unfolding inv_def using 1 2 3 4 5 6 7 8 by blast
qed

lemma inv_step: "inv s \<Longrightarrow> inv (step s ev)"
proof (cases ev)
  case (WssMessage now msg)
  assume "inv s"
  then show ?thesis by (simp add: WssMessage inv_message)
next
  case (RunAnalyze now assetId fetch)
  assume "inv s"
  then show ?thesis
    by (cases "analyzeAsset fetch assetId now (livePrices s)")
       (simp_all add: RunAnalyze inv_analyze analyzeAsset_wf)
next
  case (TimerFires now2 k)
  assume "inv s"
  then show ?thesis
    by (cases "map_of (timers s) k") (simp_all add: TimerFires inv_fire)
qed

lemma inv_foldl: "inv s \<Longrightarrow> inv (foldl step s evs)"
  by (induction evs arbitrary: s) (simp_all add: inv_step)

lemma inv_run: "inv (run evs)"
  by (simp add: run_def inv_foldl inv_init)

lemma checkOutcome_fields:
  "predictedSign (checkOutcome a lp now2) = Math_sign (weightedScore a)"
  "spotAtT (checkOutcome a lp now2) = spotAtAnalysis a"
  "spotAtTplus1h (checkOutcome a lp now2) = spotOf lp (a_assetId a)"
  by (simp_all add: checkOutcome_def Let_def)

lemma checkOutcome_unavailable:
  assumes "spotAtAnalysis a = JNull \<or> spotOf lp (a_assetId a) = JNull"
  shows "wasCorrect (checkOutcome a lp now2) = None"
  using assms by (auto simp: checkOutcome_def Let_def)

lemma checkOutcome_correct:
  assumes "wf_analysis a"
  shows "(wasCorrect (checkOutcome a lp now2) = None \<longleftrightarrow>
            jeq (Math_sign (weightedScore a)) (Fin 0) \<or> spotAtAnalysis a = JNull \<or>
            spotOf lp (a_assetId a) = JNull)"
    and "wasCorrect (checkOutcome a lp now2) \<noteq> None \<longrightarrow>
           wasCorrect (checkOutcome a lp now2) =
             Some (vgt (spotOf lp (a_assetId a)) (spotAtAnalysis a) = jgt (Math_sign (weightedScore a)) (Fin 0))"
proof -
  obtain w where w: "weightedScore a = Fin w"
    using assms by (cases "weightedScore a") (simp_all add: wf_analysis_def)
  have spot: "spotAtAnalysis a = JNull \<or> (\<exists>x. spotAtAnalysis a = JNum x)"
    using assms by (cases "spotAtAnalysis a") (simp_all add: wf_analysis_def)
  have later: "spotOf lp (a_assetId a) = JNull \<or> (\<exists>x. spotOf lp (a_assetId a) = JNum x)"
    by (rule spotOf_cases)
  have sg: "w > 0 \<or> w = 0 \<or> w < 0" by linarith
  show "(wasCorrect (checkOutcome a lp now2) = None \<longleftrightarrow>
            jeq (Math_sign (weightedScore a)) (Fin 0) \<or> spotAtAnalysis a = JNull \<or>
            spotOf lp (a_assetId a) = JNull)"
    using spot later sg by (auto simp: checkOutcome_def Let_def w jeq_def jgt_def)
  show "wasCorrect (checkOutcome a lp now2) \<noteq> None \<longrightarrow>
           wasCorrect (checkOutcome a lp now2) =
             Some (vgt (spotOf lp (a_assetId a)) (spotAtAnalysis a) = jgt (Math_sign (weightedScore a)) (Fin 0))"
    using spot later sg by (auto simp: checkOutcome_def Let_def w jeq_def jgt_def)
qed

lemma map_of_filter_other:
  "k' \<noteq> k \<Longrightarrow> map_of (filter (\<lambda>(j, _). j \<noteq> k) xs) k' = map_of xs k'"
  by (induction xs) auto

lemma map_of_filter_out: "map_of (filter (\<lambda>(k', _). k' \<noteq> k) xs) k = None"
  by (induction xs) auto

text \<open>Where a pending timer comes from: the run of \<open>analyzeAsset\<close> that set it.\<close>

lemma timer_provenance:
  assumes "map_of (timers (run evs)) k = Some a"
  shows "\<exists>evs0 now assetId fetch evs1.
           evs = evs0 @ RunAnalyze now assetId fetch # evs1 \<and>
           analyzeAsset fetch assetId now (livePrices (run evs0)) = Some a"
  using assms
proof (induction evs rule: rev_induct)
  case Nil
  then show ?case by (simp add: run_def init_def)
next
  case (snoc ev evs)
  have ext: "\<exists>evs0 now assetId fetch evs1.
           evs @ [ev] = evs0 @ RunAnalyze now assetId fetch # evs1 \<and>
           analyzeAsset fetch assetId now (livePrices (run evs0)) = Some a"
    if old: "map_of (timers (run evs)) k = Some a"
  proof -
    obtain evs0 now assetId fetch evs1 where
      e: "evs = evs0 @ RunAnalyze now assetId fetch # evs1" and
      r: "analyzeAsset fetch assetId now (livePrices (run evs0)) = Some a"
      using snoc.IH [OF old] by blast
    have "evs @ [ev] = evs0 @ RunAnalyze now assetId fetch # (evs1 @ [ev])"
      by (simp add: e)
    then show ?thesis using r by blast
  qed
  show ?case
  proof (cases ev)
    case (WssMessage now msg)
    then have "map_of (timers (run evs)) k = Some a"
      using snoc.prems by (simp add: run_snoc)
    then show ?thesis by (rule ext)
  next
    case (RunAnalyze now assetId fetch)
    show ?thesis
    proof (cases "analyzeAsset fetch assetId now (livePrices (run evs))")
      case None
      then have "map_of (timers (run evs)) k = Some a"
        using snoc.prems by (simp add: run_snoc RunAnalyze)
      then show ?thesis by (rule ext)
    next
      case (Some r)
      have t: "map_of (timers (run evs) @ [(nextId (run evs), r)]) k = Some a"
        using snoc.prems by (simp add: run_snoc RunAnalyze Some)
      show ?thesis
      proof (cases "map_of (timers (run evs)) k")
        case None
        then have "k = nextId (run evs) \<and> r = a"
          using t by (auto simp: map_add_def split: if_splits)
        then have "analyzeAsset fetch assetId now (livePrices (run evs)) = Some a"
          using Some by simp
        moreover have "evs @ [ev] = evs @ RunAnalyze now assetId fetch # []"
          by (simp add: RunAnalyze)
        ultimately show ?thesis by blast
      next
        case (Some a')
        then have "map_of (timers (run evs)) k = Some a"
          using t by (simp add: map_add_def)
        then show ?thesis by (rule ext)
      qed
    qed
  next
    case (TimerFires now2 k')
    show ?thesis
    proof (cases "map_of (timers (run evs)) k'")
      case None
      then have "map_of (timers (run evs)) k = Some a"
        using snoc.prems by (simp add: run_snoc TimerFires)
      then show ?thesis by (rule ext)
    next
      case (Some r)
      have t: "map_of (filter (\<lambda>(j, _). j \<noteq> k') (timers (run evs))) k = Some a"
        using snoc.prems by (simp add: run_snoc TimerFires Some)
      have "k \<noteq> k'"
        using t by (auto simp: map_of_filter_out)
      then have "map_of (timers (run evs)) k = Some a"
        using t by (simp add: map_of_filter_other)
      then show ?thesis by (rule ext)
    qed
  qed
qed

text \<open>Where an outcome line comes from: the firing of the timer with its serial number.\<close>

lemma outcome_provenance:
  assumes "OutcomeLine k out \<in> set (journal (run evs))"
  shows "\<exists>evs1 now2 evs2 a.
           evs = evs1 @ TimerFires now2 k # evs2 \<and>
           map_of (timers (run evs1)) k = Some a \<and>
           out = checkOutcome a (livePrices (run evs1)) now2"
  using assms
proof (induction evs rule: rev_induct)
  case Nil
  then show ?case by (simp add: run_def init_def)
next
  case (snoc ev evs)
  have ext: "\<exists>evs1 now2 evs2 a.
           evs @ [ev] = evs1 @ TimerFires now2 k # evs2 \<and>
           map_of (timers (run evs1)) k = Some a \<and>
           out = checkOutcome a (livePrices (run evs1)) now2"
    if old: "OutcomeLine k out \<in> set (journal (run evs))"
  proof -
    obtain evs1 now2 evs2 a where
      e: "evs = evs1 @ TimerFires now2 k # evs2" and
      r: "map_of (timers (run evs1)) k = Some a" "out = checkOutcome a (livePrices (run evs1)) now2"
      using snoc.IH [OF old] by blast
    have "evs @ [ev] = evs1 @ TimerFires now2 k # (evs2 @ [ev])"
      by (simp add: e)
    then show ?thesis using r by blast
  qed
  show ?case
  proof (cases ev)
    case (WssMessage now msg)
    then have "OutcomeLine k out \<in> set (journal (run evs))"
      using snoc.prems by (simp add: run_snoc)
    then show ?thesis by (rule ext)
  next
    case (RunAnalyze now assetId fetch)
    then have "OutcomeLine k out \<in> set (journal (run evs))"
      using snoc.prems
      by (cases "analyzeAsset fetch assetId now (livePrices (run evs))") (simp_all add: run_snoc)
    then show ?thesis by (rule ext)
  next
    case (TimerFires now2 k')
    show ?thesis
    proof (cases "map_of (timers (run evs)) k'")
      case None
      then have "OutcomeLine k out \<in> set (journal (run evs))"
        using snoc.prems by (simp add: run_snoc TimerFires)
      then show ?thesis by (rule ext)
    next
      case (Some r)
      then consider "OutcomeLine k out \<in> set (journal (run evs))"
        | "k = k'" "out = checkOutcome r (livePrices (run evs)) now2"
        using snoc.prems by (auto simp: run_snoc TimerFires)
      then show ?thesis
      proof cases
        case 1
        then show ?thesis by (rule ext)
      next
        case 2
        have "evs @ [ev] = evs @ TimerFires now2 k # []"
          by (simp add: TimerFires 2)
        moreover have "map_of (timers (run evs)) k = Some r"
          using Some 2 by simp
        ultimately show ?thesis using 2(2) by blast
      qed
    qed
  qed
qed

lemma analyzeAsset_fields:
  assumes "analyzeAsset fetch assetId now lp = Some a"
  shows "a_assetId a = assetId" and "spotAtAnalysis a = spotOf lp assetId"
  using assms by (auto simp: analyzeAsset_def Let_def split: option.splits)

lemma run_append: "run (xs @ ys) = foldl step (run xs) ys"
  by (simp add: run_def)

lemma journal_step: "set (journal s) \<subseteq> set (journal (step s ev))"
  by (cases ev) (auto split: option.splits)

lemma journal_foldl: "set (journal s) \<subseteq> set (journal (foldl step s evs))"
proof (induction evs arbitrary: s)
  case Nil
  then show ?case by simp
next
  case (Cons ev evs)
  show ?case
    using journal_step [of s ev] Cons [of "step s ev"] by auto
qed

text \<open>
  C1. Every outcome line of a run was written by the firing of a timer, and that timer
  was set by a run of \<open>analyzeAsset\<close> before it: the events split as
  \<open>evs0 @ RunAnalyze \<dots> # evs1 @ TimerFires now2 k # evs2\<close>. The analysis \<open>a\<close> it produced is
  the parent: its line, with the same serial number, is in the journal. The outcome's
  \<open>predictedSign\<close> is \<open>Math.sign\<close> of the recorded (three-decimal) \<open>weightedScore\<close> of \<open>a\<close>;
  its \<open>spotAtT\<close> is the spot recorded in \<open>a\<close>, which is what the cache held for the
  instrument when the analysis ran; its \<open>spotAtTplus1h\<close> is what the cache holds for the
  instrument when the timer fires. \<open>wasCorrect\<close> is \<open>null\<close> exactly when the predicted sign
  is \<open>0\<close> or one of these two spots is \<open>null\<close>, and otherwise it is the boolean
  \<open>(spotLater > spot) = (predictedSign > 0)\<close>. The recorded score of an analysis is always
  finite, so the sign is never NaN.
\<close>

theorem outcome_sign_and_correctness:
  assumes "OutcomeLine k out \<in> set (journal (run evs))"
  shows "\<exists>evs0 now assetId fetch evs1 now2 evs2 a.
           evs = evs0 @ RunAnalyze now assetId fetch # evs1 @ TimerFires now2 k # evs2 \<and>
           analyzeAsset fetch assetId now (livePrices (run evs0)) = Some a \<and>
           AnalysisLine k a \<in> set (journal (run evs)) \<and>
           predictedSign out = Math_sign (weightedScore a) \<and>
           spotAtT out = spotAtAnalysis a \<and>
           spotAtT out = spotOf (livePrices (run evs0)) assetId \<and>
           spotAtTplus1h out =
             spotOf (livePrices (run (evs0 @ RunAnalyze now assetId fetch # evs1))) assetId \<and>
           (wasCorrect out = None \<longleftrightarrow>
              jeq (predictedSign out) (Fin 0) \<or> spotAtT out = JNull \<or> spotAtTplus1h out = JNull) \<and>
           (wasCorrect out \<noteq> None \<longrightarrow>
              wasCorrect out = Some (vgt (spotAtTplus1h out) (spotAtT out) = jgt (predictedSign out) (Fin 0)))"
proof -
  obtain evsA now2 evs2 a where
    split1: "evs = evsA @ TimerFires now2 k # evs2" and
    timer: "map_of (timers (run evsA)) k = Some a" and
    out: "out = checkOutcome a (livePrices (run evsA)) now2"
    using outcome_provenance [OF assms] by blast
  obtain evs0 now assetId fetch evs1 where
    split2: "evsA = evs0 @ RunAnalyze now assetId fetch # evs1" and
    an: "analyzeAsset fetch assetId now (livePrices (run evs0)) = Some a"
    using timer_provenance [OF timer] by blast
  have i: "inv (run evsA)" by (rule inv_run)
  have "(k, a) \<in> set (timers (run evsA))"
    using timer by (rule map_of_SomeD)
  then have "AnalysisLine k a \<in> set (journal (run evsA))"
    using i unfolding inv_def by blast
  then have line: "AnalysisLine k a \<in> set (journal (run evs))"
    using journal_foldl [of "run evsA" "TimerFires now2 k # evs2"]
    by (auto simp: split1 run_append)
  have wf: "wf_analysis a"
    using an by (rule analyzeAsset_wf)
  have f: "a_assetId a = assetId" "spotAtAnalysis a = spotOf (livePrices (run evs0)) assetId"
    using analyzeAsset_fields [OF an] by simp_all
  have e: "evs = evs0 @ RunAnalyze now assetId fetch # evs1 @ TimerFires now2 k # evs2"
    by (simp add: split1 split2)
  have body: "evs = evs0 @ RunAnalyze now assetId fetch # evs1 @ TimerFires now2 k # evs2 \<and>
           analyzeAsset fetch assetId now (livePrices (run evs0)) = Some a \<and>
           AnalysisLine k a \<in> set (journal (run evs)) \<and>
           predictedSign out = Math_sign (weightedScore a) \<and>
           spotAtT out = spotAtAnalysis a \<and>
           spotAtT out = spotOf (livePrices (run evs0)) assetId \<and>
           spotAtTplus1h out =
             spotOf (livePrices (run (evs0 @ RunAnalyze now assetId fetch # evs1))) assetId \<and>
           (wasCorrect out = None \<longleftrightarrow>
              jeq (predictedSign out) (Fin 0) \<or> spotAtT out = JNull \<or> spotAtTplus1h out = JNull) \<and>
           (wasCorrect out \<noteq> None \<longrightarrow>
              wasCorrect out = Some (vgt (spotAtTplus1h out) (spotAtT out) = jgt (predictedSign out) (Fin 0)))"
    using e an line checkOutcome_correct [OF wf, of "livePrices (run evsA)" now2] f
    by (simp add: out checkOutcome_fields split2 [symmetric])
  show ?thesis
    by (intro exI) (rule body)
qed

text \<open>
  C9. In the journal of any run, every prefix that contains the outcome line of an
  analysis contains its analysis line, and no serial number has two outcome lines (nor
  two analysis lines). A pending timer that fires always appends its outcome line and
  is gone afterwards; when the spot at analysis time or at check time is \<open>null\<close> the
  outcome it appends is indeterminate. The journal is the order of the calls of
  \<open>appendJsonLine\<close>; the completion of the file writes is outside the program.
\<close>

theorem outcome_after_analysis_at_most_once:
  "(\<forall>n. set (outcomeIds (take n (journal (run evs)))) \<subseteq> set (analysisIds (take n (journal (run evs))))) \<and>
   distinct (outcomeIds (journal (run evs))) \<and>
   distinct (analysisIds (journal (run evs))) \<and>
   (map_of (timers (run evs)) k = Some record \<longrightarrow>
      journal (step (run evs) (TimerFires now2 k)) =
        journal (run evs) @ [OutcomeLine k (checkOutcome record (livePrices (run evs)) now2)] \<and>
      map_of (timers (step (run evs) (TimerFires now2 k))) k = None \<and>
      (spotAtAnalysis record = JNull \<or> spotOf (livePrices (run evs)) (a_assetId record) = JNull \<longrightarrow>
         wasCorrect (checkOutcome record (livePrices (run evs)) now2) = None))"
proof -
  have i: "inv (run evs)" by (rule inv_run)
  have 1: "\<forall>n. set (outcomeIds (take n (journal (run evs)))) \<subseteq> set (analysisIds (take n (journal (run evs))))"
    using i unfolding inv_def by blast
  have 2: "distinct (outcomeIds (journal (run evs)))" "distinct (analysisIds (journal (run evs)))"
    using i unfolding inv_def by blast+
  show ?thesis
    using 1 2 by (simp add: map_of_filter_out checkOutcome_unavailable)
qed

lemma indicatorsOf_no_rows:
  "indicatorsOf [] = \<lparr>rsi = JNull, macd = None, bb = None, adx = None, stoch = None, cci = JNull,
      ema50 = JNull, ema200 = JNull, close = JUndef\<rparr>"
  by (simp add: indicatorsOf_def RSI_def MACD_def Bollinger_def ADX_def Stoch_def CCI_def EMA_def
      at_num_def at_index_def)

lemma toFixed_real_zero: "toFixed_real d 0 = 0"
  by (simp add: toFixed_real_def)

lemma decideSignal_absent:
  "decideSignal \<lparr>rsi = JNull, macd = None, bb = None, adx = None, stoch = None, cci = JNull,
      ema50 = JNull, ema200 = JNull, close = JUndef\<rparr>
   = \<lparr>score = 0, verdict = ''NEUTRAL / WAIT'', sig_notes = []\<rparr>"
  by (simp add: decideSignal_def runChecks_def signalChecks_def trendCheck_def rsiCheck_def
      macdCheck_def bbCheck_def adxCheck_def stochCheck_def cciCheck_def toFixed_real_zero)

lemma analyzeAsset_no_rows:
  "analyzeAsset (\<lambda>_ _. Some []) 5000 0 Map.empty =
     Some \<lparr>a_t = 0, a_epoch = 0, a_assetId = 5000, a_pair = None, spotAtAnalysis = JNull,
            weightedScore = Fin 0, a_verdict = ''NEUTRAL / WAIT'',
            a_perTF = [(''15m'', JUndef, 0), (''1h'', JUndef, 0), (''1d'', JUndef, 0)]\<rparr>"
  by (simp add: analyzeAsset_def TIMEFRAMES_def analyzeOneTF_def indicatorsOf_no_rows
      decideSignal_absent weightedScoreOf_def totalW_def globalVerdictOf_def spotOf_def pairOf_def
      jge_def jle_def jeq_def toFixed_real_zero)

lemma run_one_analysis:
  "run [RunAnalyze 0 5000 (\<lambda>_ _. Some [])] =
     \<lparr>livePrices = Map.empty,
      journal = [AnalysisLine 0 \<lparr>a_t = 0, a_epoch = 0, a_assetId = 5000, a_pair = None, spotAtAnalysis = JNull,
            weightedScore = Fin 0, a_verdict = ''NEUTRAL / WAIT'',
            a_perTF = [(''15m'', JUndef, 0), (''1h'', JUndef, 0), (''1d'', JUndef, 0)]\<rparr>],
      timers = [(0, \<lparr>a_t = 0, a_epoch = 0, a_assetId = 5000, a_pair = None, spotAtAnalysis = JNull,
            weightedScore = Fin 0, a_verdict = ''NEUTRAL / WAIT'',
            a_perTF = [(''15m'', JUndef, 0), (''1h'', JUndef, 0), (''1d'', JUndef, 0)]\<rparr>)],
      nextId = 1\<rparr>"
  by (simp add: run_def init_def analyzeAsset_no_rows)

theorem outcome_after_analysis_at_most_once_witness:
  "journal (step (run [RunAnalyze 0 5000 (\<lambda>_ _. Some [])]) (TimerFires 3600000 0)) =
     [AnalysisLine 0 \<lparr>a_t = 0, a_epoch = 0, a_assetId = 5000, a_pair = None, spotAtAnalysis = JNull,
            weightedScore = Fin 0, a_verdict = ''NEUTRAL / WAIT'',
            a_perTF = [(''15m'', JUndef, 0), (''1h'', JUndef, 0), (''1d'', JUndef, 0)]\<rparr>,
      OutcomeLine 0 \<lparr>tCheck = 3600000, o_assetId = 5000, o_pair = None, spotAtT = JNull,
            spotAtTplus1h = JNull, delta = JNull, predictedSign = Fin 0, wasCorrect = None\<rparr>] \<and>
   map_of (timers (step (run [RunAnalyze 0 5000 (\<lambda>_ _. Some [])]) (TimerFires 3600000 0))) 0 = None \<and>
   distinct (outcomeIds (journal (run [RunAnalyze 0 5000 (\<lambda>_ _. Some [])])))"
  using outcome_after_analysis_at_most_once [of "[RunAnalyze 0 5000 (\<lambda>_ _. Some [])]" 0
      "\<lparr>a_t = 0, a_epoch = 0, a_assetId = 5000, a_pair = None, spotAtAnalysis = JNull,
            weightedScore = Fin 0, a_verdict = ''NEUTRAL / WAIT'',
            a_perTF = [(''15m'', JUndef, 0), (''1h'', JUndef, 0), (''1d'', JUndef, 0)]\<rparr>" 3600000]
  by (simp add: run_one_analysis checkOutcome_def spotOf_def jgt_def)

section \<open>A worked run\<close>

text \<open>
  The fifteen falling bars on every timeframe: RSI is \<open>0\<close>, ADX is \<open>100/14\<close> rounded,
  below \<open>25\<close>, the other indicators are absent, so each timeframe scores \<open>1\<close> and the
  weighted score is exactly \<open>1\<close>.
\<close>

lemma RSI_falling:
  "RSI [Fin 20, Fin 19, Fin 18, Fin 17, Fin 16, Fin 15, Fin 14, Fin 13, Fin 12, Fin 11, Fin 10,
        Fin 9, Fin 8, Fin 7, Fin 6] 14 = JNum (Fin 0)"
  by (simp add: RSI_def RSI_avgs_def RSI_seed_def RSI_smooth_def diff_at_def elem_def jsub_def
      jge_def jle_def jeq_def jgt_def upt_conv_Cons Let_def)

lemma ADX_falling:
  "ADX [Fin 20, Fin 19, Fin 18, Fin 17, Fin 16, Fin 15, Fin 14, Fin 13, Fin 12, Fin 11, Fin 10,
        Fin 9, Fin 8, Fin 7, Fin 6]
       [Fin 20, Fin 19, Fin 18, Fin 17, Fin 16, Fin 15, Fin 14, Fin 13, Fin 12, Fin 11, Fin 10,
        Fin 9, Fin 8, Fin 7, Fin 6]
       [Fin 20, Fin 19, Fin 18, Fin 17, Fin 16, Fin 15, Fin 14, Fin 13, Fin 12, Fin 11, Fin 10,
        Fin 9, Fin 8, Fin 7, Fin 6] 14
   = Some \<lparr>adx_adx = round64 (50 / 7), adx_plusDI = JNum (Fin 0), adx_minusDI = JNum (Fin 100)\<rparr>"
  by (simp add: ADX_def wSmooth_def ADX_tr_def ADX_plusDM_def ADX_minusDM_def ADX_DI_def ADX_dx_def
      Math_max_def jmax_def slice_def rel_index_def elem_def at_num_def at_index_def
      jsub_def jgt_def upt_conv_Cons Let_def)

lemma toFixed_real_int:
  assumes "0 \<le> n" and "n < 10 ^ 21"
  shows "toFixed_real d (of_int n) = of_int n"
proof -
  have "(of_int n :: real) * 10 ^ d = of_int (n * 10 ^ d)" by simp
  moreover have "\<lfloor>of_int (n * 10 ^ d) + (1 / 2 :: real)\<rfloor> = n * 10 ^ d"
    by linarith
  ultimately have fl: "\<lfloor>(of_int n :: real) * 10 ^ d + 1 / 2\<rfloor> = n * 10 ^ d" by simp
  have small: "\<not> (10 ^ 21 \<le> \<bar>of_int n :: real\<bar>)"
  proof -
    have "(of_int n :: real) < of_int (10 ^ 21)" using assms(2) by (simp only: of_int_less_iff)
    then show ?thesis using assms(1) by simp
  qed
  have "\<bar>of_int n :: real\<bar> = of_int n" using assms(1) by simp
  then show ?thesis
    using small assms(1) by (simp add: toFixed_real_def fl sgn_real_def)
qed

lemma toFixed_real_small: "toFixed_real d 1 = 1" "toFixed_real d 2 = 2"
  using toFixed_real_int [of 1 d] toFixed_real_int [of 2 d] by simp_all

lemma adx_falling_value: "\<not> jgt (round64 (50 / 7)) (Fin 25)"
proof -
  have "rnd 8 = 8" using rnd_int [of 8] by simp
  then have "round64 (50 / 7) = Fin (rnd (50 / 7))" "\<bar>rnd (50 / 7)\<bar> \<le> 8"
    by (intro round64_bound [of "50 / 7" 8]; simp)+
  then show ?thesis by (simp add: jgt_def)
qed

lemma indicatorsOf_falling:
  "indicatorsOf fallingRows
   = \<lparr>rsi = JNum (Fin 0), macd = None, bb = None,
      adx = Some \<lparr>adx_adx = round64 (50 / 7), adx_plusDI = JNum (Fin 0), adx_minusDI = JNum (Fin 100)\<rparr>,
      stoch = None, cci = JNull, ema50 = JNull, ema200 = JNull, close = JNum (Fin 6)\<rparr>"
  by (simp add: fallingRows_def indicatorsOf_def RSI_falling ADX_falling MACD_def Bollinger_def Stoch_def CCI_def EMA_def
      at_num_def at_index_def)

lemma decideSignal_falling:
  "decideSignal \<lparr>rsi = JNum (Fin 0), macd = None, bb = None,
      adx = Some \<lparr>adx_adx = round64 (50 / 7), adx_plusDI = JNum (Fin 0), adx_minusDI = JNum (Fin 100)\<rparr>,
      stoch = None, cci = JNull, ema50 = JNull, ema200 = JNull, close = JNum (Fin 6)\<rparr>
   = \<lparr>score = 1, verdict = ''NEUTRAL / WAIT'', sig_notes = [''RSI < 30 (oversold)'']\<rparr>"
  by (simp add: decideSignal_def runChecks_def signalChecks_def trendCheck_def rsiCheck_def
      macdCheck_def bbCheck_def adxCheck_def stochCheck_def cciCheck_def toFixed_real_small vlt_def
      adx_falling_value)

lemma analyzeAsset_falling:
  "analyzeAsset (\<lambda>_ _. Some fallingRows) 5000 2000
     [5000 \<mapsto> \<lparr>price = Fin 10, ts = Fin 1000, pair = ''K''\<rparr>]
   = Some \<lparr>a_t = 2000, a_epoch = 2, a_assetId = 5000, a_pair = Some ''K'', spotAtAnalysis = JNum (Fin 10),
            weightedScore = Fin 1, a_verdict = ''GLOBAL: LEAN LONG'',
            a_perTF = [(''15m'', JNum (Fin 6), 1), (''1h'', JNum (Fin 6), 1), (''1d'', JNum (Fin 6), 1)]\<rparr>"
  by (simp add: analyzeAsset_def TIMEFRAMES_def analyzeOneTF_def indicatorsOf_falling
      decideSignal_falling weightedScoreOf_def totalW_def globalVerdictOf_def spotOf_def pairOf_def
      toFixed_real_small Let_def jge_def jle_def jeq_def)

lemma run_falling:
  "journal (run fallingRun)
   = [AnalysisLine 0 \<lparr>a_t = 2000, a_epoch = 2, a_assetId = 5000, a_pair = Some ''K'',
            spotAtAnalysis = JNum (Fin 10), weightedScore = Fin 1, a_verdict = ''GLOBAL: LEAN LONG'',
            a_perTF = [(''15m'', JNum (Fin 6), 1), (''1h'', JNum (Fin 6), 1), (''1d'', JNum (Fin 6), 1)]\<rparr>,
      OutcomeLine 0 \<lparr>tCheck = 3602000, o_assetId = 5000, o_pair = Some ''K'', spotAtT = JNum (Fin 10),
            spotAtTplus1h = JNum (Fin 12), delta = JNum (Fin 2), predictedSign = Fin 1,
            wasCorrect = Some True\<rparr>]"
  by (simp add: fallingRun_def run_def init_def onMessage_def handleEntry_def analyzeAsset_falling
      checkOutcome_def spotOf_def vgt_def toFixed_real_small Let_def jgt_def jsub_def)

theorem outcome_sign_and_correctness_witness:
  "\<exists>evs0 now assetId fetch evs1 now2 evs2 a.
     fallingRun = evs0 @ RunAnalyze now assetId fetch # evs1 @ TimerFires now2 0 # evs2 \<and>
     analyzeAsset fetch assetId now (livePrices (run evs0)) = Some a \<and>
     AnalysisLine 0 a \<in> set (journal (run fallingRun)) \<and>
     Fin 1 = Math_sign (weightedScore a) \<and>
     JNum (Fin 10) = spotOf (livePrices (run evs0)) assetId \<and>
     JNum (Fin 12) = spotOf (livePrices (run (evs0 @ RunAnalyze now assetId fetch # evs1))) assetId \<and>
     Some True = Some (vgt (JNum (Fin 12)) (JNum (Fin 10)) = jgt (Fin 1) (Fin 0))"
proof -
  let ?out = "\<lparr>tCheck = 3602000, o_assetId = 5000, o_pair = Some ''K'', spotAtT = JNum (Fin 10),
            spotAtTplus1h = JNum (Fin 12), delta = JNum (Fin 2), predictedSign = Fin 1,
            wasCorrect = Some True\<rparr>"
  have mem: "OutcomeLine 0 ?out \<in> set (journal (run fallingRun))"
    by (simp add: run_falling)
  obtain evs0 now assetId fetch evs1 now2 evs2 a where
    h: "fallingRun = evs0 @ RunAnalyze now assetId fetch # evs1 @ TimerFires now2 0 # evs2"
       "analyzeAsset fetch assetId now (livePrices (run evs0)) = Some a"
       "AnalysisLine 0 a \<in> set (journal (run fallingRun))"
       "predictedSign ?out = Math_sign (weightedScore a)"
       "spotAtT ?out = spotOf (livePrices (run evs0)) assetId"
       "spotAtTplus1h ?out =
          spotOf (livePrices (run (evs0 @ RunAnalyze now assetId fetch # evs1))) assetId"
       "wasCorrect ?out \<noteq> None \<longrightarrow>
          wasCorrect ?out = Some (vgt (spotAtTplus1h ?out) (spotAtT ?out) = jgt (predictedSign ?out) (Fin 0))"
    using outcome_sign_and_correctness [OF mem] by blast
  have "fallingRun = evs0 @ RunAnalyze now assetId fetch # evs1 @ TimerFires now2 0 # evs2 \<and>
     analyzeAsset fetch assetId now (livePrices (run evs0)) = Some a \<and>
     AnalysisLine 0 a \<in> set (journal (run fallingRun)) \<and>
     Fin 1 = Math_sign (weightedScore a) \<and>
     JNum (Fin 10) = spotOf (livePrices (run evs0)) assetId \<and>
     JNum (Fin 12) = spotOf (livePrices (run (evs0 @ RunAnalyze now assetId fetch # evs1))) assetId \<and>
     Some True = Some (vgt (JNum (Fin 12)) (JNum (Fin 10)) = jgt (Fin 1) (Fin 0))"
    using h by simp
  then show ?thesis
    by (intro exI)
qed

theorem weighted_score_and_global_verdict_witness:
  "\<exists>perTF ws. analyzeAll (\<lambda>_ _. Some fallingRows) 5000 TIMEFRAMES = Some perTF \<and>
      map tf_weight perTF = [1, 2, 3] \<and> weightedScoreOf perTF = Fin ws \<and>
      \<bar>ws - (\<Sum>r\<leftarrow>perTF. tf_score r * real (tf_weight r)) / 6\<bar> \<le> 1 / 10 ^ 9 \<and>
      ''GLOBAL: LEAN LONG'' = (if ws \<ge> 1 then ''GLOBAL: LEAN LONG''
                               else if ws \<le> - 1 then ''GLOBAL: LEAN SHORT''
                               else ''NEUTRAL / WAIT'') \<and>
      Fin 1 = Fin (toFixed_real 3 ws)"
proof -
  have w: "map weight TIMEFRAMES = [1, 2, 3]"
    by (simp add: TIMEFRAMES_def)
  from weighted_score_and_global_verdict [OF analyzeAsset_falling]
  obtain perTF ws where "analyzeAll (\<lambda>_ _. Some fallingRows) 5000 TIMEFRAMES = Some perTF"
    "map tf_weight perTF = map weight TIMEFRAMES" "weightedScoreOf perTF = Fin ws"
    "\<bar>ws - (\<Sum>r\<leftarrow>perTF. tf_score r * real (tf_weight r)) / (\<Sum>tf\<leftarrow>TIMEFRAMES. real (weight tf))\<bar>
             \<le> 1 / 10 ^ 9"
    "''GLOBAL: LEAN LONG'' = (if ws \<ge> 1 then ''GLOBAL: LEAN LONG''
                               else if ws \<le> - 1 then ''GLOBAL: LEAN SHORT''
                               else ''NEUTRAL / WAIT'')"
    "Fin 1 = Fin (toFixed_real 3 ws)"
    by (auto simp del: jsnum.inject)
  then have "analyzeAll (\<lambda>_ _. Some fallingRows) 5000 TIMEFRAMES = Some perTF \<and>
      map tf_weight perTF = [1, 2, 3] \<and> weightedScoreOf perTF = Fin ws \<and>
      \<bar>ws - (\<Sum>r\<leftarrow>perTF. tf_score r * real (tf_weight r)) / 6\<bar> \<le> 1 / 10 ^ 9 \<and>
      ''GLOBAL: LEAN LONG'' = (if ws \<ge> 1 then ''GLOBAL: LEAN LONG''
                               else if ws \<le> - 1 then ''GLOBAL: LEAN SHORT''
                               else ''NEUTRAL / WAIT'') \<and>
      Fin 1 = Fin (toFixed_real 3 ws)"
    unfolding w sum_weights by blast
  then show ?thesis
    by (intro exI [of _ perTF] exI [of _ ws])
qed

end
